theory Spec2Isabelle
  imports Main "HOL-Library.AList"
begin

section \<open>Python values, strings and exceptions\<close>

text \<open>
  The program \<^verbatim>\<open>vbox_cli.py\<close> handles three kinds of Python values: \<^verbatim>\<open>None\<close>,
  strings, and lists of strings. A Python \<^verbatim>\<open>str\<close> is modelled as a \<open>string\<close> whose
  characters are the code points below 256; strings that come from the command
  line hold no NUL character.
\<close>

datatype pyval = PyNone | PyStr string | PyList "string list"

datatype exn =
    SystemExit int
  | IndexError
  | AttributeError string
  | TypeError
  | FileNotFoundError
  | CalledProcessError int

text \<open>
  \<^verbatim>\<open>argparse.Namespace\<close>: attribute names with their values, in insertion order
  (the object's \<^verbatim>\<open>__dict__\<close>). Reading an attribute that is not there raises
  \<^verbatim>\<open>AttributeError\<close>.
\<close>

type_synonym namespace = "(string \<times> pyval) list"

definition hasattr :: "namespace \<Rightarrow> string \<Rightarrow> bool" where
  "hasattr ns a = (map_of ns a \<noteq> None)"

definition getattr :: "namespace \<Rightarrow> string \<Rightarrow> exn + pyval" where
  "getattr ns a = (case map_of ns a of None \<Rightarrow> Inl (AttributeError a) | Some v \<Rightarrow> Inr v)"

definition setattr :: "namespace \<Rightarrow> string \<Rightarrow> pyval \<Rightarrow> namespace" where
  "setattr ns a v = AList.update a v ns"

definition delattr :: "namespace \<Rightarrow> string \<Rightarrow> namespace" where
  "delattr ns a = AList.delete a ns"

text \<open>\<^verbatim>\<open>'literal' + value\<close>: concatenation raises \<^verbatim>\<open>TypeError\<close> unless the value is a string.\<close>

definition str_add :: "string \<Rightarrow> pyval \<Rightarrow> exn + string" where
  "str_add s v = (case v of PyStr t \<Rightarrow> Inr (s @ t) | _ \<Rightarrow> Inl TypeError)"

text \<open>
  \<^verbatim>\<open>str.isspace\<close> on the code points below 256: TAB, LF, VT, FF, CR, the separators
  FS, GS, RS, US, the space, NEL and the no-break space.
\<close>

definition isspace :: "char \<Rightarrow> bool" where
  "isspace c =
     (let n = (of_char c :: nat)
      in n = 32 \<or> (9 \<le> n \<and> n \<le> 13) \<or> (28 \<le> n \<and> n \<le> 31) \<or> n = 133 \<or> n = 160)"

text \<open>
  \<^verbatim>\<open>str.split()\<close> with no separator: the maximal runs of characters that are not
  whitespace. \<open>split_from w cs\<close> scans \<open>cs\<close> with the word \<open>w\<close> read so far.
\<close>

fun split_from :: "string \<Rightarrow> string \<Rightarrow> string list" where
  "split_from w [] = (if w = [] then [] else [w])"
| "split_from w (c # cs) =
     (if isspace c then (if w = [] then split_from [] cs else w # split_from [] cs)
      else split_from (w @ [c]) cs)"

definition str_split :: "string \<Rightarrow> string list" where
  "str_split s = split_from [] s"

text \<open>\<^verbatim>\<open>s.startswith(p)\<close> and \<^verbatim>\<open>s.partition('=')\<close>.\<close>

definition startswith :: "string \<Rightarrow> string \<Rightarrow> bool" where
  "startswith s p = (take (length p) s = p)"

definition partition_eq :: "string \<Rightarrow> string \<times> string \<times> string" where
  "partition_eq s =
     (if CHR ''='' \<in> set s
      then (takeWhile (\<lambda>c. c \<noteq> CHR ''='') s, ''='', tl (dropWhile (\<lambda>c. c \<noteq> CHR ''='') s))
      else (s, '''', ''''))"

section \<open>The operating system and \<^verbatim>\<open>subprocess.run\<close>\<close>

text \<open>
  What the operating system does with a command is a parameter of the model: the
  command's process ends with a return code, or the program cannot be started.
  The \<open>world\<close> records, in order, the argument lists for which a process was
  requested and what the program itself wrote to its two output streams (the
  child's own output goes to the inherited streams and is not recorded).
\<close>

datatype completed = Exited int | NotStarted

type_synonym os = "string list \<Rightarrow> completed"

datatype argparse_error =
    AmbiguousOption string "string list"
  | UnexpectedOptionString string
  | ExpectedOneArgument "string list"
  | IgnoredExplicitArgument string
  | NotAllowedWith "string list" "string list"
  | InvalidChoice string
  | UnknownParser string
  | RequiredArguments "string list list"
  | OneOfRequired "string list list"
  | UnrecognizedArguments "string list"

datatype printed = HelpText | UsageText argparse_error | Line string | Traceback exn

record world =
  spawned :: "string list list"
  stdout :: "printed list"
  stderr :: "printed list"

definition world0 :: world where
  "world0 = \<lparr>spawned = [], stdout = [], stderr = []\<rparr>"

definition is_str :: "pyval \<Rightarrow> bool" where
  "is_str v = (case v of PyStr _ \<Rightarrow> True | _ \<Rightarrow> False)"

definition the_str :: "pyval \<Rightarrow> string" where
  "the_str v = (case v of PyStr s \<Rightarrow> s | _ \<Rightarrow> [])"

text \<open>
  \<^verbatim>\<open>subprocess.run(args, check=True)\<close>: an argument that is not a string raises
  \<^verbatim>\<open>TypeError\<close> before anything is started; a program that cannot be started raises
  \<^verbatim>\<open>FileNotFoundError\<close>; a return code other than zero raises
  \<^verbatim>\<open>CalledProcessError\<close> with that code.
\<close>

definition subprocess_run :: "os \<Rightarrow> pyval list \<Rightarrow> world \<Rightarrow> exn option \<times> world" where
  "subprocess_run os args w =
     (if \<not> list_all is_str args then (Some TypeError, w)
      else
        let cmd = map the_str args;
            w' = w\<lparr>spawned := spawned w @ [cmd]\<rparr>
        in case os cmd of
             NotStarted \<Rightarrow> (Some FileNotFoundError, w')
           | Exited rc \<Rightarrow> (if rc \<noteq> 0 then (Some (CalledProcessError rc), w') else (None, w')))"

section \<open>The four operations\<close>

text \<open>\<^verbatim>\<open>opt_create\<close>: the command is built as one string and split at whitespace.\<close>

definition create_cmd_str :: "namespace \<Rightarrow> exn + string" where
  "create_cmd_str args =
     (case getattr args ''vbox_vm_name'' of Inl e \<Rightarrow> Inl e
      | Inr name \<Rightarrow>
     (case str_add ''vboxmanage createvm --register --name '' name of Inl e \<Rightarrow> Inl e
      | Inr vbox_cmd_str \<Rightarrow>
     (case getattr args ''vbox_vm_groups'' of Inl e \<Rightarrow> Inl e
      | Inr groups \<Rightarrow>
        if groups \<noteq> PyNone then
          (case str_add '' --groups '' groups of Inl e \<Rightarrow> Inl e
           | Inr t \<Rightarrow> Inr (vbox_cmd_str @ t))
        else
     (case getattr args ''vbox_vm_os'' of Inl e \<Rightarrow> Inl e
      | Inr os_type \<Rightarrow>
        if os_type \<noteq> PyNone then
          (case str_add '' --ostype '' os_type of Inl e \<Rightarrow> Inl e
           | Inr t \<Rightarrow> Inr (vbox_cmd_str @ t))
        else Inr vbox_cmd_str))))"

definition opt_create :: "os \<Rightarrow> namespace \<Rightarrow> world \<Rightarrow> exn option \<times> world" where
  "opt_create os args w =
     (case create_cmd_str args of
        Inl e \<Rightarrow> (Some e, w)
      | Inr vbox_cmd_str \<Rightarrow> subprocess_run os (map PyStr (str_split vbox_cmd_str)) w)"

definition opt_delete :: "os \<Rightarrow> namespace \<Rightarrow> world \<Rightarrow> exn option \<times> world" where
  "opt_delete os args w =
     (case getattr args ''vbox_vm_identifier'' of
        Inl e \<Rightarrow> (Some e, w)
      | Inr ident \<Rightarrow>
          subprocess_run os
            [PyStr ''vboxmanage'', PyStr ''unregistervm'', PyStr ''--delete'', ident] w)"

definition opt_info :: "os \<Rightarrow> namespace \<Rightarrow> world \<Rightarrow> exn option \<times> world" where
  "opt_info os args w =
     (case getattr args ''vbox_vm_identifier'' of
        Inl e \<Rightarrow> (Some e, w)
      | Inr ident \<Rightarrow>
          if ident \<noteq> PyNone then
            subprocess_run os
              [PyStr ''vboxmanage'', PyStr ''showvminfo'', PyStr ''--details'', ident] w
          else
            subprocess_run os [PyStr ''vboxmanage'', PyStr ''list'', PyStr ''vms''] w)"

definition todo_message :: string where
  "todo_message = ''//TODO: proper error handling''"

definition opt_status :: "os \<Rightarrow> namespace \<Rightarrow> world \<Rightarrow> exn option \<times> world" where
  "opt_status os args w =
     (case getattr args ''vbox_vm_action'' of
        Inl e \<Rightarrow> (Some e, w)
      | Inr act \<Rightarrow>
          if act = PyStr ''start'' then
            (case getattr args ''vbox_vm_identifier'' of
               Inl e \<Rightarrow> (Some e, w)
             | Inr ident \<Rightarrow>
                 subprocess_run os
                   [PyStr ''vboxmanage'', PyStr ''startvm'', ident, PyStr ''--type'',
                    PyStr ''headless''] w)
          else if act = PyStr ''stop'' then
            (case getattr args ''vbox_vm_identifier'' of
               Inl e \<Rightarrow> (Some e, w)
             | Inr ident \<Rightarrow>
                 subprocess_run os
                   [PyStr ''vboxmanage'', PyStr ''controlvm'', ident, PyStr ''poweroff''] w)
          else (None, w\<lparr>stdout := stdout w @ [Line todo_message]\<rparr>))"

section \<open>The argument parser\<close>

text \<open>
  The program hands its command line to the standard library's \<^verbatim>\<open>argparse\<close>. Its
  parsing algorithm (CPython 3.11, \<^verbatim>\<open>ArgumentParser.parse_args\<close> and the methods it
  calls) is modelled for the kinds of action that \<^verbatim>\<open>main\<close> registers: \<^verbatim>\<open>store\<close>
  options taking one argument, \<^verbatim>\<open>store_const\<close> options, the \<^verbatim>\<open>-h/--help\<close> option
  that every parser gets, and the positional sub-parsers action. The functions keep
  the names of the library's methods.
\<close>

definition SUPPRESS :: string where
  "SUPPRESS = ''==SUPPRESS==''"

definition UNRECOGNIZED_ARGS_ATTR :: string where
  "UNRECOGNIZED_ARGS_ATTR = ''_unrecognized_args''"

datatype action_kind = Store | StoreConst string | HelpAction | SubParsersAction "string list"

record action =
  option_strings :: "string list"
  dest :: string
  kind :: action_kind
  required :: bool

datatype nargs = NargsNone | Nargs0 | NargsParser

definition nargs_of :: "action \<Rightarrow> nargs" where
  "nargs_of a =
     (case kind a of
        Store \<Rightarrow> NargsNone
      | StoreConst _ \<Rightarrow> Nargs0
      | HelpAction \<Rightarrow> Nargs0
      | SubParsersAction _ \<Rightarrow> NargsParser)"

definition default_of :: "action \<Rightarrow> pyval" where
  "default_of a = (case kind a of HelpAction \<Rightarrow> PyStr SUPPRESS | _ \<Rightarrow> PyNone)"

record mutex_group =
  group_required :: bool
  group_actions :: "action list"

record argument_parser =
  actions :: "action list"
  mutually_exclusive_groups :: "mutex_group list"

datatype 'a result = Ok 'a | HelpExit | Error argparse_error

text \<open>
  \<open>HelpExit\<close>: the help action printed the help text and left with status 0.
  \<open>Error\<close>: \<^verbatim>\<open>ArgumentParser.error\<close> printed the usage and the message to the
  standard error stream and left with status 2 (an \<^verbatim>\<open>ArgumentError\<close> raised while
  parsing ends there too).
\<close>

definition option_string_actions :: "argument_parser \<Rightarrow> (string \<times> action) list" where
  "option_string_actions p =
     concat (map (\<lambda>a. map (\<lambda>s. (s, a)) (option_strings a)) (actions p))"

definition get_positional_actions :: "argument_parser \<Rightarrow> action list" where
  "get_positional_actions p = filter (\<lambda>a. option_strings a = []) (actions p)"

subsection \<open>Telling options from arguments\<close>

type_synonym option_tuple = "action option \<times> string \<times> string option \<times> string option"

definition isdigit :: "char \<Rightarrow> bool" where
  "isdigit c = (let n = (of_char c :: nat) in 48 \<le> n \<and> n \<le> 57)"

text \<open>
  The library's \<^verbatim>\<open>_negative_number_matcher\<close>, the regular expression
  \<^verbatim>\<open>^-\d+$|^-\d*\.\d+$\<close>; its \<^verbatim>\<open>$\<close> also matches before a final line feed.
\<close>

definition negative_number_core :: "string \<Rightarrow> bool" where
  "negative_number_core s =
     (case s of
        [] \<Rightarrow> False
      | c # r \<Rightarrow>
          c = CHR ''-'' \<and>
          ((r \<noteq> [] \<and> list_all isdigit r) \<or>
           (case dropWhile isdigit r of
              [] \<Rightarrow> False
            | d # f \<Rightarrow> d = CHR ''.'' \<and> f \<noteq> [] \<and> list_all isdigit f)))"

definition negative_number_matcher :: "string \<Rightarrow> bool" where
  "negative_number_matcher s =
     (negative_number_core s \<or>
      (s \<noteq> [] \<and> last s = CHR 0x0A \<and> negative_number_core (butlast s)))"

definition has_negative_number_optionals :: "argument_parser \<Rightarrow> bool" where
  "has_negative_number_optionals p =
     list_ex negative_number_matcher (map fst (option_string_actions p))"

text \<open>
  \<^verbatim>\<open>_get_option_tuples\<close>: the options that the string may abbreviate. It is called
  with strings of two characters or more that start with \<^verbatim>\<open>-\<close>.
\<close>

definition get_option_tuples :: "argument_parser \<Rightarrow> string \<Rightarrow> option_tuple list result" where
  "get_option_tuples p option_string =
     (case option_string of
        c0 # c1 # _ \<Rightarrow>
          if c0 = CHR ''-'' \<and> c1 = CHR ''-'' then
            (let (option_prefix, sep, explicit_arg) = partition_eq option_string;
                 sep' = (if sep = [] then None else Some sep);
                 explicit_arg' = (if sep = [] then None else Some explicit_arg)
             in Ok (map (\<lambda>(s, a). (Some a, s, sep', explicit_arg'))
                      (filter (\<lambda>(s, a). startswith s option_prefix) (option_string_actions p))))
          else if c0 = CHR ''-'' \<and> c1 \<noteq> CHR ''-'' then
            Ok (concat (map (\<lambda>(s, a).
                  if s = take 2 option_string then [(Some a, s, Some [], Some (drop 2 option_string))]
                  else if startswith s option_string then [(Some a, s, None, None)]
                  else [])
                (option_string_actions p)))
          else Error (UnexpectedOptionString option_string)
      | _ \<Rightarrow> Error (UnexpectedOptionString option_string))"

text \<open>
  \<^verbatim>\<open>_parse_optional\<close>: \<open>None\<close> for a string meant as an argument, an option tuple
  for an option (with no action when the parser has no such option), an error for an
  ambiguous abbreviation.
\<close>

definition parse_optional :: "argument_parser \<Rightarrow> string \<Rightarrow> option_tuple option result" where
  "parse_optional p arg_string =
     (if arg_string = [] then Ok None
      else if hd arg_string \<noteq> CHR ''-'' then Ok None
      else
        (case map_of (option_string_actions p) arg_string of
           Some a \<Rightarrow> Ok (Some (Some a, arg_string, None, None))
         | None \<Rightarrow>
             if length arg_string = 1 then Ok None
             else
               (let (option_string, sep, explicit_arg) = partition_eq arg_string in
                if sep \<noteq> [] \<and> map_of (option_string_actions p) option_string \<noteq> None then
                  Ok (Some (map_of (option_string_actions p) option_string, option_string,
                            Some sep, Some explicit_arg))
                else
                  (case get_option_tuples p arg_string of
                     Error e \<Rightarrow> Error e
                   | HelpExit \<Rightarrow> HelpExit
                   | Ok option_tuples \<Rightarrow>
                       if length option_tuples > 1 then
                         Error (AmbiguousOption arg_string (map (\<lambda>(a, s, x). s) option_tuples))
                       else if length option_tuples = 1 then Ok (Some (hd option_tuples))
                       else if negative_number_matcher arg_string
                               \<and> \<not> has_negative_number_optionals p then Ok None
                       else if CHR '' '' \<in> set arg_string then Ok None
                       else Ok (Some (None, arg_string, None, None))))))"

text \<open>
  The pattern of the argument strings: \<open>PO\<close> for an option (\<^verbatim>\<open>O\<close>, with its tuple
  from \<^verbatim>\<open>option_string_indices\<close>), \<open>PA\<close> for an argument (\<^verbatim>\<open>A\<close>), \<open>PDash\<close> for
  \<^verbatim>\<open>--\<close>, after which every string is an argument.
\<close>

datatype pat = PA | PDash | PO option_tuple

definition is_option :: "pat \<Rightarrow> bool" where
  "is_option x = (case x of PO _ \<Rightarrow> True | _ \<Rightarrow> False)"

definition is_dash :: "pat \<Rightarrow> bool" where
  "is_dash x = (case x of PDash \<Rightarrow> True | _ \<Rightarrow> False)"

fun arg_strings_pattern :: "argument_parser \<Rightarrow> string list \<Rightarrow> pat list result" where
  "arg_strings_pattern p [] = Ok []"
| "arg_strings_pattern p (arg_string # arg_strings) =
     (if arg_string = ''--'' then Ok (PDash # map (\<lambda>_. PA) arg_strings)
      else
        (case parse_optional p arg_string of
           Error e \<Rightarrow> Error e
         | HelpExit \<Rightarrow> HelpExit
         | Ok option_tuple \<Rightarrow>
             (case arg_strings_pattern p arg_strings of
                Error e \<Rightarrow> Error e
              | HelpExit \<Rightarrow> HelpExit
              | Ok pats \<Rightarrow>
                  Ok ((case option_tuple of None \<Rightarrow> PA | Some t \<Rightarrow> PO t) # pats))))"

subsection \<open>Taking actions\<close>

text \<open>
  The state of \<^verbatim>\<open>_parse_known_args\<close>: the namespace being filled, the two sets of
  actions seen, the strings no action took, and the positional actions still to
  be matched.
\<close>

record pstate =
  namespace :: namespace
  seen_actions :: "action list"
  seen_non_default_actions :: "action list"
  extras :: "string list"
  positionals :: "action list"

text \<open>
  \<^verbatim>\<open>_match_argument\<close> for an option: the pattern of an option's arguments has the
  \<^verbatim>\<open>-\<close> removed, so it is \<^verbatim>\<open>(A)\<close> for one argument, \<^verbatim>\<open>()\<close> for none and
  \<^verbatim>\<open>(A[AO]*)\<close> for a parser.
\<close>

definition match_argument :: "action \<Rightarrow> pat list \<Rightarrow> nat result" where
  "match_argument a pats =
     (case nargs_of a of
        NargsNone \<Rightarrow>
          (case pats of PA # _ \<Rightarrow> Ok 1 | _ \<Rightarrow> Error (ExpectedOneArgument (option_strings a)))
      | Nargs0 \<Rightarrow> Ok 0
      | NargsParser \<Rightarrow>
          (case pats of
             PA # rest \<Rightarrow> Ok (Suc (length (takeWhile (\<lambda>x. \<not> is_dash x) rest)))
           | _ \<Rightarrow> Error (ExpectedOneArgument (option_strings a))))"

text \<open>
  \<^verbatim>\<open>_match_arguments_partial\<close> for the positional actions still to be matched. The
  only positional action of this program is the sub-parsers action, with the
  pattern \<^verbatim>\<open>(-*A[-AO]*)\<close>: after any \<^verbatim>\<open>--\<close> an argument must come, and then the
  action takes every string that is left.
\<close>

definition match_arguments_partial :: "action list \<Rightarrow> pat list \<Rightarrow> nat list" where
  "match_arguments_partial acts pats =
     (case acts of
        [] \<Rightarrow> []
      | _ # _ \<Rightarrow> (case dropWhile is_dash pats of PA # _ \<Rightarrow> [length pats] | _ \<Rightarrow> []))"

text \<open>
  \<^verbatim>\<open>_get_values\<close>: one string for a \<^verbatim>\<open>store\<close> option with its single argument, the
  list of the strings otherwise; the first string given to the sub-parsers action
  must be one of its choices.
\<close>

definition get_values :: "action \<Rightarrow> string list \<Rightarrow> pyval result" where
  "get_values a arg_strings =
     (case kind a of
        Store \<Rightarrow> (case arg_strings of [s] \<Rightarrow> Ok (PyStr s) | _ \<Rightarrow> Ok (PyList arg_strings))
      | SubParsersAction choices \<Rightarrow>
          (case arg_strings of
             [] \<Rightarrow> Error (InvalidChoice [])
           | v # _ \<Rightarrow> if v \<in> set choices then Ok (PyList arg_strings) else Error (InvalidChoice v))
      | _ \<Rightarrow> Ok (PyList arg_strings))"

text \<open>
  The actions an action must not be seen with: the other members of the mutually
  exclusive groups it belongs to.
\<close>

definition action_conflicts :: "argument_parser \<Rightarrow> action \<Rightarrow> action list" where
  "action_conflicts p a =
     concat (map (\<lambda>g. if a \<in> set (group_actions g) then remove1 a (group_actions g) else [])
               (mutually_exclusive_groups p))"

text \<open>
  \<^verbatim>\<open>take_action\<close>. The values built by \<^verbatim>\<open>_get_values\<close> are never the action's
  default object, so the action always counts as present. \<open>call\<close> stands for the
  \<^verbatim>\<open>__call__\<close> of the sub-parsers action.
\<close>

definition take_action ::
  "(namespace \<Rightarrow> pyval \<Rightarrow> namespace result) \<Rightarrow> argument_parser \<Rightarrow> action \<Rightarrow> string list
     \<Rightarrow> pstate \<Rightarrow> pstate result" where
  "take_action call p a argument_strings st =
     (let st1 = st\<lparr>seen_actions := a # seen_actions st\<rparr> in
      case get_values a argument_strings of
        Error e \<Rightarrow> Error e
      | HelpExit \<Rightarrow> HelpExit
      | Ok argument_values \<Rightarrow>
          (let st2 = st1\<lparr>seen_non_default_actions := a # seen_non_default_actions st1\<rparr> in
           case filter (\<lambda>c. c \<in> set (seen_non_default_actions st2)) (action_conflicts p a) of
             c # _ \<Rightarrow> Error (NotAllowedWith (option_strings a) (option_strings c))
           | [] \<Rightarrow>
               (case kind a of
                  Store \<Rightarrow>
                    Ok (st2\<lparr>namespace := setattr (namespace st2) (dest a) argument_values\<rparr>)
                | StoreConst c \<Rightarrow>
                    Ok (st2\<lparr>namespace := setattr (namespace st2) (dest a) (PyStr c)\<rparr>)
                | HelpAction \<Rightarrow> HelpExit
                | SubParsersAction _ \<Rightarrow>
                    (case call (namespace st2) argument_values of
                       Error e \<Rightarrow> Error e
                     | HelpExit \<Rightarrow> HelpExit
                     | Ok ns \<Rightarrow> Ok (st2\<lparr>namespace := ns\<rparr>)))))"

fun take_actions ::
  "(namespace \<Rightarrow> pyval \<Rightarrow> namespace result) \<Rightarrow> argument_parser
     \<Rightarrow> (action \<times> string list \<times> string) list \<Rightarrow> pstate \<Rightarrow> pstate result" where
  "take_actions call p [] st = Ok st"
| "take_actions call p ((a, args, option_string) # action_tuples) st =
     (case take_action call p a args st of
        Error e \<Rightarrow> Error e
      | HelpExit \<Rightarrow> HelpExit
      | Ok st' \<Rightarrow> take_actions call p action_tuples st')"

subsection \<open>Consuming options\<close>

text \<open>
  The loop inside \<^verbatim>\<open>consume_optional\<close>. \<open>pats\<close> and \<open>strings\<close> are the pattern and
  the strings after the option's own string. The result is the list of action
  tuples, what goes to the extras, and the number of following strings taken as
  arguments: the library's \<^verbatim>\<open>stop\<close> is the option's index plus one plus that number.
\<close>

definition second_is_dash :: "string \<Rightarrow> bool" where
  "second_is_dash s = (case s of _ # c # _ \<Rightarrow> c = CHR ''-'' | _ \<Rightarrow> False)"

function optional_tuples ::
  "argument_parser \<Rightarrow> string \<Rightarrow> pat list \<Rightarrow> string list \<Rightarrow> action option \<Rightarrow> string
     \<Rightarrow> string option \<Rightarrow> string option \<Rightarrow> (action \<times> string list \<times> string) list
     \<Rightarrow> ((action \<times> string list \<times> string) list \<times> string list \<times> nat) result" where
  "optional_tuples p arg_string pats strings act option_string sep explicit_arg action_tuples =
     (case act of
        None \<Rightarrow> Ok ([], [arg_string], 0)
      | Some a \<Rightarrow>
          (case explicit_arg of
             None \<Rightarrow>
               (case match_argument a pats of
                  Error e \<Rightarrow> Error e
                | HelpExit \<Rightarrow> HelpExit
                | Ok arg_count \<Rightarrow>
                    Ok (action_tuples @ [(a, take arg_count strings, option_string)], [],
                        arg_count))
           | Some e \<Rightarrow>
               (case match_argument a [PA] of
                  Error err \<Rightarrow> Error err
                | HelpExit \<Rightarrow> HelpExit
                | Ok arg_count \<Rightarrow>
                    if arg_count = 0 \<and> \<not> second_is_dash option_string \<and> e \<noteq> [] then
                      if (sep \<noteq> None \<and> sep \<noteq> Some []) \<or> hd e = CHR ''-'' then
                        Error (IgnoredExplicitArgument e)
                      else
                        (case map_of (option_string_actions p) [hd option_string, hd e] of
                           None \<Rightarrow>
                             Ok (action_tuples @ [(a, [], option_string)],
                                 [hd option_string # e], 0)
                         | Some a' \<Rightarrow>
                             if tl e = [] then
                               optional_tuples p arg_string pats strings (Some a')
                                 [hd option_string, hd e] None None
                                 (action_tuples @ [(a, [], option_string)])
                             else if hd (tl e) = CHR ''='' then
                               optional_tuples p arg_string pats strings (Some a')
                                 [hd option_string, hd e] (Some ''='') (Some (tl (tl e)))
                                 (action_tuples @ [(a, [], option_string)])
                             else
                               optional_tuples p arg_string pats strings (Some a')
                                 [hd option_string, hd e] (Some []) (Some (tl e))
                                 (action_tuples @ [(a, [], option_string)]))
                    else if arg_count = 1 then
                      Ok (action_tuples @ [(a, [e], option_string)], [], 0)
                    else Error (IgnoredExplicitArgument e))))"
  by pat_completeness auto
termination
  by (relation "measure (\<lambda>(p, arg_string, pats, strings, act, option_string, sep, explicit_arg,
          action_tuples). case explicit_arg of None \<Rightarrow> 0 | Some e \<Rightarrow> Suc (length e))")
     (auto simp: neq_Nil_conv)

declare optional_tuples.simps [simp del]

text \<open>
  \<^verbatim>\<open>consume_optional\<close> at the index of an option: \<open>arg_string\<close> is the string there,
  \<open>following\<close> the strings after it with their pattern. An option the parser does
  not know goes to the extras.
\<close>

definition consume_optional ::
  "(namespace \<Rightarrow> pyval \<Rightarrow> namespace result) \<Rightarrow> argument_parser \<Rightarrow> pstate \<Rightarrow> string
     \<Rightarrow> option_tuple \<Rightarrow> (string \<times> pat) list \<Rightarrow> (pstate \<times> nat) result" where
  "consume_optional call p st arg_string option_tuple following =
     (case option_tuple of (act, option_string, sep, explicit_arg) \<Rightarrow>
        (case optional_tuples p arg_string (map snd following) (map fst following)
                act option_string sep explicit_arg [] of
           Error e \<Rightarrow> Error e
         | HelpExit \<Rightarrow> HelpExit
         | Ok (action_tuples, ex, arg_count) \<Rightarrow>
             (case take_actions call p action_tuples (st\<lparr>extras := extras st @ ex\<rparr>) of
                Error e \<Rightarrow> Error e
              | HelpExit \<Rightarrow> HelpExit
              | Ok st' \<Rightarrow> Ok (st', arg_count))))"

subsection \<open>Consuming positional arguments\<close>

fun take_positionals ::
  "(namespace \<Rightarrow> pyval \<Rightarrow> namespace result) \<Rightarrow> argument_parser \<Rightarrow> (action \<times> nat) list
     \<Rightarrow> string list \<Rightarrow> pstate \<Rightarrow> pstate result" where
  "take_positionals call p [] strings st = Ok st"
| "take_positionals call p ((a, arg_count) # rest) strings st =
     (case take_action call p a (take arg_count strings) st of
        Error e \<Rightarrow> Error e
      | HelpExit \<Rightarrow> HelpExit
      | Ok st' \<Rightarrow> take_positionals call p rest (drop arg_count strings) st')"

text \<open>
  \<^verbatim>\<open>consume_positionals\<close>: the state after the matched positional actions were
  taken, and the number of strings they took.
\<close>

definition consume_positionals ::
  "(namespace \<Rightarrow> pyval \<Rightarrow> namespace result) \<Rightarrow> argument_parser \<Rightarrow> pstate
     \<Rightarrow> (string \<times> pat) list \<Rightarrow> (pstate \<times> nat) result" where
  "consume_positionals call p st rest =
     (let arg_counts = match_arguments_partial (positionals st) (map snd rest) in
      case take_positionals call p (zip (positionals st) arg_counts) (map fst rest) st of
        Error e \<Rightarrow> Error e
      | HelpExit \<Rightarrow> HelpExit
      | Ok st' \<Rightarrow>
          Ok (st'\<lparr>positionals := drop (length arg_counts) (positionals st')\<rparr>,
              sum_list arg_counts))"

subsection \<open>The parsing loop\<close>

text \<open>
  The \<^verbatim>\<open>while\<close> loop of \<^verbatim>\<open>_parse_known_args\<close>, on the strings from
  \<^verbatim>\<open>start_index\<close> on, each with its pattern. It runs while an option string is left:
  positional actions may take the strings before the next option; strings they do
  not take go to the extras; then the option is consumed.
\<close>

lemma drop_after_dropWhile_shorter:
  "dropWhile P rest = x # xs \<Longrightarrow> length xs - n < length rest"
proof -
  assume "dropWhile P rest = x # xs"
  then have "length (x # xs) \<le> length rest"
    using length_dropWhile_le [of P rest] by simp
  then show ?thesis by simp
qed

lemma drop_before_option_shorter:
  "dropWhile P rest = x # xs \<Longrightarrow> 0 < n \<Longrightarrow> length rest - n < length rest"
  by (cases rest) auto

function parse_loop ::
  "(namespace \<Rightarrow> pyval \<Rightarrow> namespace result) \<Rightarrow> argument_parser \<Rightarrow> pstate
     \<Rightarrow> (string \<times> pat) list \<Rightarrow> (pstate \<times> (string \<times> pat) list) result" where
  "parse_loop call p st rest =
     (case dropWhile (\<lambda>x. \<not> is_option (snd x)) rest of
        [] \<Rightarrow> Ok (st, rest)
      | (arg_string, pt) # following \<Rightarrow>
          (let leading = takeWhile (\<lambda>x. \<not> is_option (snd x)) rest in
           case (if leading \<noteq> [] then consume_positionals call p st rest else Ok (st, 0)) of
             Error e \<Rightarrow> Error e
           | HelpExit \<Rightarrow> HelpExit
           | Ok (st1, n) \<Rightarrow>
               if n > 0 then parse_loop call p st1 (drop n rest)
               else
                 (case pt of
                    PO option_tuple \<Rightarrow>
                      (case consume_optional call p (st1\<lparr>extras := extras st1 @ map fst leading\<rparr>)
                              arg_string option_tuple following of
                         Error e \<Rightarrow> Error e
                       | HelpExit \<Rightarrow> HelpExit
                       | Ok (st2, arg_count) \<Rightarrow>
                           parse_loop call p st2 (drop arg_count following))
                  | _ \<Rightarrow> Ok (st1, rest))))"
  by pat_completeness auto
termination
  by (relation "measure (\<lambda>(call, p, st, rest). length rest)")
     (auto intro: drop_after_dropWhile_shorter drop_before_option_shorter)

declare parse_loop.simps [simp del]

subsection \<open>\<^verbatim>\<open>parse_known_args\<close> and \<^verbatim>\<open>parse_args\<close>\<close>

text \<open>
  \<^verbatim>\<open>_parse_known_args\<close>: the pattern is built first (an ambiguous abbreviation
  ends the program there), then the loop runs, the positional actions get what
  follows the last option, what is left goes to the extras, and the required
  actions and the required groups are checked. The result is the final state,
  whose namespace and extras the library returns.
\<close>

definition parse_known_args_state ::
  "(namespace \<Rightarrow> pyval \<Rightarrow> namespace result) \<Rightarrow> argument_parser \<Rightarrow> string list
     \<Rightarrow> namespace \<Rightarrow> pstate result" where
  "parse_known_args_state call p arg_strings ns =
     (case arg_strings_pattern p arg_strings of
        Error e \<Rightarrow> Error e
      | HelpExit \<Rightarrow> HelpExit
      | Ok pats \<Rightarrow>
          (let st0 = \<lparr>namespace = ns, seen_actions = [], seen_non_default_actions = [],
                      extras = [], positionals = get_positional_actions p\<rparr>
           in case parse_loop call p st0 (zip arg_strings pats) of
                Error e \<Rightarrow> Error e
              | HelpExit \<Rightarrow> HelpExit
              | Ok (st1, rest) \<Rightarrow>
                  (case consume_positionals call p st1 rest of
                     Error e \<Rightarrow> Error e
                   | HelpExit \<Rightarrow> HelpExit
                   | Ok (st2, n) \<Rightarrow>
                       (let st3 = st2\<lparr>extras := extras st2 @ map fst (drop n rest)\<rparr>;
                            required_actions =
                              filter (\<lambda>a. a \<notin> set (seen_actions st3) \<and> required a) (actions p)
                        in if required_actions \<noteq> [] then
                             Error (RequiredArguments (map option_strings required_actions))
                           else
                             (case filter (\<lambda>g. group_required g \<and>
                                       \<not> list_ex (\<lambda>a. a \<in> set (seen_non_default_actions st3))
                                            (group_actions g))
                                     (mutually_exclusive_groups p) of
                                g # _ \<Rightarrow> Error (OneOfRequired (map option_strings (group_actions g)))
                              | [] \<Rightarrow> Ok st3)))))"

text \<open>
  The namespace \<^verbatim>\<open>parse_known_args\<close> starts from: every action's \<^verbatim>\<open>dest\<close> with
  its default, unless one of the two is \<^verbatim>\<open>SUPPRESS\<close>.
\<close>

definition add_defaults :: "argument_parser \<Rightarrow> namespace \<Rightarrow> namespace" where
  "add_defaults p ns =
     fold (\<lambda>a n. if dest a \<noteq> SUPPRESS \<and> \<not> hasattr n (dest a) \<and> default_of a \<noteq> PyStr SUPPRESS
                  then setattr n (dest a) (default_of a) else n)
          (actions p) ns"

definition parse_known_args ::
  "(namespace \<Rightarrow> pyval \<Rightarrow> namespace result) \<Rightarrow> argument_parser \<Rightarrow> string list
     \<Rightarrow> (namespace \<times> string list) result" where
  "parse_known_args call p args =
     (case parse_known_args_state call p args (add_defaults p []) of
        Error e \<Rightarrow> Error e
      | HelpExit \<Rightarrow> HelpExit
      | Ok st \<Rightarrow>
          (case map_of (namespace st) UNRECOGNIZED_ARGS_ATTR of
             Some v \<Rightarrow>
               Ok (delattr (namespace st) UNRECOGNIZED_ARGS_ATTR,
                   extras st @ (case v of PyList xs \<Rightarrow> xs | _ \<Rightarrow> []))
           | None \<Rightarrow> Ok (namespace st, extras st)))"

text \<open>
  The \<^verbatim>\<open>__call__\<close> of the sub-parsers action: the first value names the parser,
  which parses the other values into a namespace of its own; its attributes are
  copied, and the strings it did not recognise are left in the namespace for the
  parser above. A sub-parser of this program has no sub-parsers itself.
\<close>

definition no_subparsers :: "namespace \<Rightarrow> pyval \<Rightarrow> namespace result" where
  "no_subparsers ns values = Error (UnknownParser [])"

definition subparsers_call ::
  "(string \<times> argument_parser) list \<Rightarrow> namespace \<Rightarrow> pyval \<Rightarrow> namespace result" where
  "subparsers_call name_parser_map ns values =
     (case values of
        PyList (parser_name # arg_strings) \<Rightarrow>
          (case map_of name_parser_map parser_name of
             None \<Rightarrow> Error (UnknownParser parser_name)
           | Some subparser \<Rightarrow>
               (case parse_known_args no_subparsers subparser arg_strings of
                  Error e \<Rightarrow> Error e
                | HelpExit \<Rightarrow> HelpExit
                | Ok (subnamespace, arg_strings') \<Rightarrow>
                    (let ns1 = fold (\<lambda>(key, v) n. setattr n key v) subnamespace ns in
                     if arg_strings' \<noteq> [] then
                       Ok (setattr ns1 UNRECOGNIZED_ARGS_ATTR
                             (PyList ((case map_of ns1 UNRECOGNIZED_ARGS_ATTR of
                                         Some (PyList xs) \<Rightarrow> xs | _ \<Rightarrow> []) @ arg_strings')))
                     else Ok ns1)))
      | _ \<Rightarrow> Error (UnknownParser []))"

definition parse_args ::
  "(namespace \<Rightarrow> pyval \<Rightarrow> namespace result) \<Rightarrow> argument_parser \<Rightarrow> string list
     \<Rightarrow> namespace result" where
  "parse_args call p args =
     (case parse_known_args call p args of
        Error e \<Rightarrow> Error e
      | HelpExit \<Rightarrow> HelpExit
      | Ok (ns, argv) \<Rightarrow> if argv \<noteq> [] then Error (UnrecognizedArguments argv) else Ok ns)"

section \<open>The parsers of \<^verbatim>\<open>main\<close>\<close>

definition help_action :: action where
  "help_action =
     \<lparr>option_strings = [''-h'', ''--help''], dest = SUPPRESS, kind = HelpAction, required = False\<rparr>"

definition create_name :: action where
  "create_name =
     \<lparr>option_strings = [''--name''], dest = ''vbox_vm_name'', kind = Store, required = True\<rparr>"

definition create_groups :: action where
  "create_groups =
     \<lparr>option_strings = [''-g'', ''--groups''], dest = ''vbox_vm_groups'', kind = Store,
      required = False\<rparr>"

definition create_os :: action where
  "create_os =
     \<lparr>option_strings = [''-o'', ''--operating-system''], dest = ''vbox_vm_os'', kind = Store,
      required = False\<rparr>"

definition parser_create :: argument_parser where
  "parser_create =
     \<lparr>actions = [help_action, create_name, create_groups, create_os],
      mutually_exclusive_groups = []\<rparr>"

text \<open>
  \<^verbatim>\<open>--name\<close> and \<^verbatim>\<open>--uuid\<close> of the sub-commands delete, info and status: two
  actions that store to the same attribute.
\<close>

definition ident_name :: action where
  "ident_name =
     \<lparr>option_strings = [''--name''], dest = ''vbox_vm_identifier'', kind = Store,
      required = False\<rparr>"

definition ident_uuid :: action where
  "ident_uuid =
     \<lparr>option_strings = [''--uuid''], dest = ''vbox_vm_identifier'', kind = Store,
      required = False\<rparr>"

definition vm_delete_exclusive_args :: mutex_group where
  "vm_delete_exclusive_args = \<lparr>group_required = True, group_actions = [ident_name, ident_uuid]\<rparr>"

definition parser_delete :: argument_parser where
  "parser_delete =
     \<lparr>actions = [help_action, ident_name, ident_uuid],
      mutually_exclusive_groups = [vm_delete_exclusive_args]\<rparr>"

definition vm_info_exclusive_args :: mutex_group where
  "vm_info_exclusive_args = \<lparr>group_required = False, group_actions = [ident_name, ident_uuid]\<rparr>"

definition parser_info :: argument_parser where
  "parser_info =
     \<lparr>actions = [help_action, ident_name, ident_uuid],
      mutually_exclusive_groups = [vm_info_exclusive_args]\<rparr>"

definition status_start :: action where
  "status_start =
     \<lparr>option_strings = [''--start''], dest = ''vbox_vm_action'', kind = StoreConst ''start'',
      required = False\<rparr>"

definition status_stop :: action where
  "status_stop =
     \<lparr>option_strings = [''--stop''], dest = ''vbox_vm_action'', kind = StoreConst ''stop'',
      required = False\<rparr>"

definition vm_status_exclusive_args_ops :: mutex_group where
  "vm_status_exclusive_args_ops =
     \<lparr>group_required = True, group_actions = [status_start, status_stop]\<rparr>"

definition vm_status_exclusive_args_label :: mutex_group where
  "vm_status_exclusive_args_label =
     \<lparr>group_required = True, group_actions = [ident_name, ident_uuid]\<rparr>"

definition parser_status :: argument_parser where
  "parser_status =
     \<lparr>actions = [help_action, status_start, status_stop, ident_name, ident_uuid],
      mutually_exclusive_groups = [vm_status_exclusive_args_ops, vm_status_exclusive_args_label]\<rparr>"

definition name_parser_map :: "(string \<times> argument_parser) list" where
  "name_parser_map =
     [(''create'', parser_create), (''delete'', parser_delete), (''info'', parser_info),
      (''status'', parser_status)]"

text \<open>
  \<^verbatim>\<open>add_subparsers\<close> is called without \<^verbatim>\<open>required\<close> and without \<^verbatim>\<open>dest\<close>: the
  sub-command is optional and its name is not stored.
\<close>

definition subparsers :: action where
  "subparsers =
     \<lparr>option_strings = [], dest = SUPPRESS, kind = SubParsersAction (map fst name_parser_map),
      required = False\<rparr>"

definition parser :: argument_parser where
  "parser = \<lparr>actions = [help_action, subparsers], mutually_exclusive_groups = []\<rparr>"

section \<open>\<^verbatim>\<open>main\<close> and the exit status\<close>

text \<open>
  \<^verbatim>\<open>main\<close> parses \<^verbatim>\<open>sys.argv[1:]\<close> and then looks at \<^verbatim>\<open>sys.argv[1]\<close> itself,
  which raises \<^verbatim>\<open>IndexError\<close> when the command line has no argument. \<open>sys_argv\<close> is
  the whole of \<^verbatim>\<open>sys.argv\<close>, the program's name first.
\<close>

definition main :: "os \<Rightarrow> string list \<Rightarrow> exn option \<times> world" where
  "main os sys_argv =
     (case parse_args (subparsers_call name_parser_map) parser (drop 1 sys_argv) of
        HelpExit \<Rightarrow> (Some (SystemExit 0), world0\<lparr>stdout := [HelpText]\<rparr>)
      | Error e \<Rightarrow> (Some (SystemExit 2), world0\<lparr>stderr := [UsageText e]\<rparr>)
      | Ok args \<Rightarrow>
          if length sys_argv < 2 then (Some IndexError, world0)
          else if sys_argv ! 1 = ''create'' then opt_create os args world0
          else if sys_argv ! 1 = ''delete'' then opt_delete os args world0
          else if sys_argv ! 1 = ''info'' then opt_info os args world0
          else if sys_argv ! 1 = ''status'' then opt_status os args world0
          else (None, world0\<lparr>stdout := [Line todo_message]\<rparr>))"

text \<open>
  The interpreter runs the module, whose last statement calls \<^verbatim>\<open>main()\<close>: the exit
  status is 0 when \<^verbatim>\<open>main\<close> returns, the code of a \<^verbatim>\<open>SystemExit\<close>, and 1 with a
  traceback on the standard error stream for any other exception.
\<close>

definition run_program :: "os \<Rightarrow> string list \<Rightarrow> int \<times> world" where
  "run_program os sys_argv =
     (case main os sys_argv of
        (None, w) \<Rightarrow> (0, w)
      | (Some (SystemExit n), w) \<Rightarrow> (n, w)
      | (Some e, w) \<Rightarrow> (1, w\<lparr>stderr := stderr w @ [Traceback e]\<rparr>))"

definition exit_status :: "os \<Rightarrow> string list \<Rightarrow> int" where
  "exit_status os sys_argv = fst (run_program os sys_argv)"

section \<open>Notions used in the statements and the proofs\<close>

text \<open>A value that \<^verbatim>\<open>str.split\<close> leaves as it is: not empty and without whitespace.\<close>

definition token :: "string \<Rightarrow> bool" where
  "token s = (s \<noteq> [] \<and> \<not> list_ex isspace s)"

text \<open>The argument list \<^verbatim>\<open>opt_create\<close> hands over, for a name and the values of the groups and
  os-type attributes.\<close>

definition create_words :: "string \<Rightarrow> pyval \<Rightarrow> pyval \<Rightarrow> string list" where
  "create_words n gv ov =
     [''vboxmanage'', ''createvm'', ''--register'', ''--name''] @ str_split n @
     (case gv of
        PyStr g \<Rightarrow> ''--groups'' # str_split g
      | _ \<Rightarrow> (case ov of PyStr t \<Rightarrow> ''--ostype'' # str_split t | _ \<Rightarrow> []))"

text \<open>A parser with options only, as the four sub-parsers are: no positional action, no
  sub-parsers action, and no attribute named like the list of unrecognised strings.\<close>

definition sub_level :: "argument_parser \<Rightarrow> bool" where
  "sub_level p \<longleftrightarrow>
     (\<forall>a \<in> set (actions p).
        option_strings a \<noteq> [] \<and>
        (case kind a of
           SubParsersAction _ \<Rightarrow> False
         | HelpAction \<Rightarrow> True
         | _ \<Rightarrow> dest a \<noteq> UNRECOGNIZED_ARGS_ATTR))"

text \<open>What an attribute may hold: \<^verbatim>\<open>None\<close>, or what one of the actions with this
  \<^verbatim>\<open>dest\<close> stores.\<close>

definition value_ok :: "argument_parser \<Rightarrow> string \<Rightarrow> pyval \<Rightarrow> bool" where
  "value_ok p d v \<longleftrightarrow>
     v = PyNone \<or>
     (\<exists>a \<in> set (actions p). dest a = d \<and>
        (case kind a of Store \<Rightarrow> is_str v | StoreConst c \<Rightarrow> v = PyStr c | _ \<Rightarrow> False))"

text \<open>The invariant of the parsing loop of a parser with options only.\<close>

definition inv :: "argument_parser \<Rightarrow> pstate \<Rightarrow> bool" where
  "inv p st \<longleftrightarrow>
     positionals st = [] \<and>
     set (seen_actions st) \<subseteq> set (seen_non_default_actions st) \<and>
     set (seen_non_default_actions st) \<subseteq> set (actions p) \<and>
     (\<forall>a \<in> set (actions p). kind a \<noteq> HelpAction \<longrightarrow>
        (\<exists>v. map_of (namespace st) (dest a) = Some v \<and> value_ok p (dest a) v)) \<and>
     (\<forall>a \<in> set (seen_non_default_actions st).
        map_of (namespace st) (dest a) \<noteq> Some PyNone) \<and>
     (\<forall>g \<in> set (mutually_exclusive_groups p).
        \<forall>a \<in> set (group_actions g). \<forall>b \<in> set (group_actions g).
          a \<in> set (seen_non_default_actions st) \<longrightarrow> b \<in> set (seen_non_default_actions st)
            \<longrightarrow> a = b) \<and>
     map_of (namespace st) UNRECOGNIZED_ARGS_ATTR = None \<and>
     distinct (map fst (namespace st))"

text \<open>Action tuples of known actions, a \<^verbatim>\<open>store\<close> action with exactly one argument string.\<close>

definition tuples_ok :: "argument_parser \<Rightarrow> (action \<times> string list \<times> string) list \<Rightarrow> bool" where
  "tuples_ok p ts \<longleftrightarrow>
     (\<forall>(a, args, s) \<in> set ts. a \<in> set (actions p) \<and> (kind a = Store \<longrightarrow> length args = 1))"

text \<open>An option tuple whose action, if it has one, is an action of the parser.\<close>

definition tuple_known :: "argument_parser \<Rightarrow> option_tuple \<Rightarrow> bool" where
  "tuple_known p t \<longleftrightarrow> (case fst t of None \<Rightarrow> True | Some a \<Rightarrow> a \<in> set (actions p))"

text \<open>Strings with their pattern, every option tuple known.\<close>

definition rest_known :: "argument_parser \<Rightarrow> (string \<times> pat) list \<Rightarrow> bool" where
  "rest_known p rest \<longleftrightarrow> (\<forall>x \<in> set rest. case snd x of PO t \<Rightarrow> tuple_known p t | _ \<Rightarrow> True)"

text \<open>The state in which \<^verbatim>\<open>_parse_known_args\<close> starts for a parser called with a fresh namespace.\<close>

definition state0 :: "argument_parser \<Rightarrow> pstate" where
  "state0 p = \<lparr>namespace = add_defaults p [], seen_actions = [], seen_non_default_actions = [],
               extras = [], positionals = get_positional_actions p\<rparr>"

text \<open>The names of the four sub-commands.\<close>

definition subcommand :: "string \<Rightarrow> bool" where
  "subcommand name \<longleftrightarrow> name \<in> {''create'', ''delete'', ''info'', ''status''}"

text \<open>The state of the top-level parser after the sub-parsers action has run.\<close>

definition top_final :: "namespace \<Rightarrow> pstate" where
  "top_final ns = \<lparr>namespace = ns, seen_actions = [subparsers],
      seen_non_default_actions = [subparsers], extras = [], positionals = []\<rparr>"

text \<open>Command lines written with the full option names of the delete and status
  sub-commands: a list of options, each with its value where it takes one.\<close>

datatype opt = OptName string | OptUuid string | OptStart | OptStop

fun render :: "opt \<Rightarrow> string list" where
  "render (OptName v) = [''--name'', v]"
| "render (OptUuid v) = [''--uuid'', v]"
| "render OptStart = [''--start'']"
| "render OptStop = [''--stop'']"

fun opt_action :: "opt \<Rightarrow> action" where
  "opt_action (OptName v) = ident_name"
| "opt_action (OptUuid v) = ident_uuid"
| "opt_action OptStart = status_start"
| "opt_action OptStop = status_stop"

definition is_ident :: "opt \<Rightarrow> bool" where
  "is_ident x = (case x of OptName _ \<Rightarrow> True | OptUuid _ \<Rightarrow> True | _ \<Rightarrow> False)"

definition command_line :: "opt list \<Rightarrow> string list" where
  "command_line opts = concat (map render opts)"

text \<open>The parser takes the option's first string as this option, written in full.\<close>

definition known :: "argument_parser \<Rightarrow> opt \<Rightarrow> bool" where
  "known p x \<longleftrightarrow>
     parse_optional p (hd (render x)) =
       Ok (Some (Some (opt_action x), hd (render x), None, None))"

text \<open>The pattern of such a command line, as far as the loop reads it: an option that
  takes a value is followed by its value, and what comes after matters only when the
  value is read as an argument.\<close>

fun shape :: "opt list \<Rightarrow> (string \<times> pat) list \<Rightarrow> bool" where
  "shape [] rest = (rest = [])"
| "shape (x # xs) rest =
     (case rest of
        [] \<Rightarrow> False
      | (f, pt) # tail \<Rightarrow>
          pt = PO (Some (opt_action x), f, None, None) \<and>
          (if is_ident x then
             (case tail of [] \<Rightarrow> False | (v, c) # rest' \<Rightarrow> c = PA \<longrightarrow> shape xs rest')
           else shape xs tail))"

text \<open>The options that give the identifier by name, and those that give it as a UUID.\<close>

definition by_name :: "opt \<Rightarrow> bool" where
  "by_name x = (case x of OptName _ \<Rightarrow> True | _ \<Rightarrow> False)"

definition by_uuid :: "opt \<Rightarrow> bool" where
  "by_uuid x = (case x of OptUuid _ \<Rightarrow> True | _ \<Rightarrow> False)"

text \<open>How the result of an operation depends on the child process: without a process no
  \<^verbatim>\<open>CalledProcessError\<close> and no \<^verbatim>\<open>SystemExit\<close>; with one process, the exception
  is decided by what the operating system reports for the command.\<close>

definition reports :: "os \<Rightarrow> exn option \<times> world \<Rightarrow> bool" where
  "reports os r \<longleftrightarrow>
     (case spawned (snd r) of
        [] \<Rightarrow> (case fst r of Some (CalledProcessError _) \<Rightarrow> False
                  | Some (SystemExit _) \<Rightarrow> False | _ \<Rightarrow> True)
      | [cmd] \<Rightarrow>
          fst r = (case os cmd of
                     NotStarted \<Rightarrow> Some FileNotFoundError
                   | Exited rc \<Rightarrow> if rc = 0 then None else Some (CalledProcessError rc))
      | _ \<Rightarrow> False)"

text \<open>
  The argument list of a create command whose values \<^verbatim>\<open>str.split\<close> leaves as they
  are: the name, and then the groups flag, or else the os-type flag.
\<close>

definition create_argv :: "string \<Rightarrow> pyval \<Rightarrow> pyval \<Rightarrow> string list" where
  "create_argv n gv ov =
     [''vboxmanage'', ''createvm'', ''--register'', ''--name'', n] @
     (case gv of
        PyStr g \<Rightarrow> [''--groups'', g]
      | _ \<Rightarrow> (case ov of PyStr t \<Rightarrow> [''--ostype'', t] | _ \<Rightarrow> []))"

text \<open>A namespace whose string values are all tokens.\<close>

definition tokens_only :: "namespace \<Rightarrow> bool" where
  "tokens_only args \<longleftrightarrow> (\<forall>(a, v) \<in> set args. case v of PyStr s \<Rightarrow> token s | _ \<Rightarrow> True)"

text \<open>A namespace in which no value is itself one of the two flags.\<close>

definition no_flag_values :: "namespace \<Rightarrow> bool" where
  "no_flag_values args \<longleftrightarrow>
     (\<forall>(a, v) \<in> set args. v \<noteq> PyStr ''--groups'' \<and> v \<noteq> PyStr ''--ostype'')"

text \<open>\<open>followed_by f v xs\<close>: somewhere in \<open>xs\<close> the element \<open>f\<close> comes right before \<open>v\<close>.\<close>

fun followed_by :: "'a \<Rightarrow> 'a \<Rightarrow> 'a list \<Rightarrow> bool" where
  "followed_by f v (x # y # zs) = ((x = f \<and> y = v) \<or> followed_by f v (y # zs))"
| "followed_by f v _ = False"

text \<open>
  The identification forms chosen on a command line of a sub-command: the actions
  \<^verbatim>\<open>--name\<close> and \<^verbatim>\<open>--uuid\<close> among those the parser has seen with a value.
\<close>

definition forms :: "argument_parser \<Rightarrow> string list \<Rightarrow> action list" where
  "forms p rest =
     (case parse_known_args_state no_subparsers p rest (add_defaults p []) of
        Ok st \<Rightarrow> filter (\<lambda>a. a \<in> set (seen_non_default_actions st)) [ident_name, ident_uuid]
      | HelpExit \<Rightarrow> []
      | Error e \<Rightarrow> [])"

section \<open>Splitting at whitespace and the command of \<^verbatim>\<open>opt_create\<close>\<close>

lemma split_from_space:
  "isspace c \<Longrightarrow> split_from w (xs @ c # ys) = split_from w xs @ split_from [] ys"
  by (induction xs arbitrary: w) auto

lemma str_split_space:
  "isspace c \<Longrightarrow> str_split (xs @ c # ys) = str_split xs @ str_split ys"
  by (simp add: str_split_def split_from_space)

lemma split_from_no_space:
  "\<not> list_ex isspace cs \<Longrightarrow> split_from w cs = (if w @ cs = [] then [] else [w @ cs])"
  by (induction cs arbitrary: w) auto

lemma str_split_token: "token s \<Longrightarrow> str_split s = [s]"
  by (simp add: token_def str_split_def split_from_no_space)

lemma split_from_words:
  "x \<in> set (split_from w cs) \<Longrightarrow> \<not> list_ex isspace w \<Longrightarrow> x \<noteq> [] \<and> \<not> list_ex isspace x"
proof (induction cs arbitrary: w)
  case Nil
  then show ?case by (auto split: if_splits)
next
  case (Cons c cs)
  show ?case
  proof (cases "isspace c")
    case True
    with Cons.prems have "x = w \<and> w \<noteq> [] \<or> x \<in> set (split_from [] cs)"
      by (auto split: if_splits)
    then show ?thesis
      using Cons.IH [of "[]"] Cons.prems(2) by auto
  next
    case False
    with Cons.prems have "x \<in> set (split_from (w @ [c]) cs)" by simp
    moreover from False Cons.prems(2) have "\<not> list_ex isspace (w @ [c])" by simp
    ultimately show ?thesis by (rule Cons.IH)
  qed
qed

lemma str_split_words: "x \<in> set (str_split s) \<Longrightarrow> x \<noteq> [] \<and> \<not> list_ex isspace x"
  unfolding str_split_def by (erule split_from_words) simp

lemma isspace_space: "isspace CHR '' ''"
  by (simp add: isspace_def)

lemma create_prefix_split:
  "str_split (''vboxmanage createvm --register --name '' @ s) =
     [''vboxmanage'', ''createvm'', ''--register'', ''--name''] @ str_split s"
proof -
  have "str_split (''vboxmanage createvm --register --name'' @ CHR '' '' # s) =
        str_split ''vboxmanage createvm --register --name'' @ str_split s"
    by (rule str_split_space) (rule isspace_space)
  moreover have "str_split ''vboxmanage createvm --register --name'' =
        [''vboxmanage'', ''createvm'', ''--register'', ''--name'']"
    by code_simp
  ultimately show ?thesis by simp
qed

lemma groups_split:
  "str_split (n @ '' --groups '' @ g) = str_split n @ ''--groups'' # str_split g"
proof -
  have "str_split (n @ CHR '' '' # (''--groups'' @ CHR '' '' # g)) =
        str_split n @ str_split (''--groups'' @ CHR '' '' # g)"
    by (rule str_split_space) (rule isspace_space)
  also have "str_split (''--groups'' @ CHR '' '' # g) = str_split ''--groups'' @ str_split g"
    by (rule str_split_space) (rule isspace_space)
  also have "str_split ''--groups'' = [''--groups'']" by code_simp
  finally show ?thesis by simp
qed

lemma ostype_split:
  "str_split (n @ '' --ostype '' @ g) = str_split n @ ''--ostype'' # str_split g"
proof -
  have "str_split (n @ CHR '' '' # (''--ostype'' @ CHR '' '' # g)) =
        str_split n @ str_split (''--ostype'' @ CHR '' '' # g)"
    by (rule str_split_space) (rule isspace_space)
  also have "str_split (''--ostype'' @ CHR '' '' # g) = str_split ''--ostype'' @ str_split g"
    by (rule str_split_space) (rule isspace_space)
  also have "str_split ''--ostype'' = [''--ostype'']" by code_simp
  finally show ?thesis by simp
qed

lemma create_cmd_str_eq:
  assumes "map_of args ''vbox_vm_name'' = Some (PyStr n)"
    and "map_of args ''vbox_vm_groups'' = Some gv" and "gv = PyNone \<or> is_str gv"
    and "map_of args ''vbox_vm_os'' = Some ov" and "ov = PyNone \<or> is_str ov"
  shows "create_cmd_str args =
     Inr (case gv of
            PyStr g \<Rightarrow> (''vboxmanage createvm --register --name '' @ n) @ ('' --groups '' @ g)
          | _ \<Rightarrow> (case ov of
                   PyStr t \<Rightarrow> (''vboxmanage createvm --register --name '' @ n) @ ('' --ostype '' @ t)
                 | _ \<Rightarrow> ''vboxmanage createvm --register --name '' @ n))"
  using assms
  by (cases gv; cases ov)
     (simp_all add: create_cmd_str_def getattr_def str_add_def is_str_def
        del: append.simps append_assoc)

lemma create_cmd_str_split:
  assumes "map_of args ''vbox_vm_name'' = Some (PyStr n)"
    and "map_of args ''vbox_vm_groups'' = Some gv" and "gv = PyNone \<or> is_str gv"
    and "map_of args ''vbox_vm_os'' = Some ov" and "ov = PyNone \<or> is_str ov"
  shows "\<exists>s. create_cmd_str args = Inr s \<and> str_split s = create_words n gv ov"
proof -
  have a: "str_split ((''vboxmanage createvm --register --name '' @ n) @ ('' --groups '' @ g)) =
      [''vboxmanage'', ''createvm'', ''--register'', ''--name''] @ str_split n @
      ''--groups'' # str_split g" for g
    unfolding append_assoc create_prefix_split groups_split ..
  have b: "str_split ((''vboxmanage createvm --register --name '' @ n) @ ('' --ostype '' @ g)) =
      [''vboxmanage'', ''createvm'', ''--register'', ''--name''] @ str_split n @
      ''--ostype'' # str_split g" for g
    unfolding append_assoc create_prefix_split ostype_split ..
  show ?thesis
    unfolding create_cmd_str_eq [OF assms] create_words_def
    using assms(3,5)
    by (cases gv; cases ov) (simp_all add: a b create_prefix_split is_str_def del: append.simps append_assoc)
qed

lemma subprocess_run_spawned:
  "list_all is_str args \<Longrightarrow>
   spawned (snd (subprocess_run os args w)) = spawned w @ [map the_str args]"
  by (auto simp: subprocess_run_def Let_def split: completed.splits)

lemma opt_create_spawned:
  assumes "map_of args ''vbox_vm_name'' = Some (PyStr n)"
    and "map_of args ''vbox_vm_groups'' = Some gv" and "gv = PyNone \<or> is_str gv"
    and "map_of args ''vbox_vm_os'' = Some ov" and "ov = PyNone \<or> is_str ov"
  shows "spawned (snd (opt_create os args w)) = spawned w @ [create_words n gv ov]"
proof -
  from create_cmd_str_split [OF assms] obtain s
    where s: "create_cmd_str args = Inr s" "str_split s = create_words n gv ov" by blast
  have "list_all is_str (map PyStr (str_split s))"
    by (simp add: list_all_iff is_str_def)
  moreover have "map the_str (map PyStr (str_split s)) = str_split s"
    by (simp add: the_str_def comp_def)
  ultimately show ?thesis
    using s by (simp add: opt_create_def subprocess_run_spawned)
qed

section \<open>The invariant of the parsing loop\<close>

subsection \<open>Taking one action\<close>

lemma invD:
  assumes "inv p st"
  shows "positionals st = []"
    and "set (seen_actions st) \<subseteq> set (seen_non_default_actions st)"
    and "set (seen_non_default_actions st) \<subseteq> set (actions p)"
    and "\<forall>a \<in> set (actions p). kind a \<noteq> HelpAction \<longrightarrow>
        (\<exists>v. map_of (namespace st) (dest a) = Some v \<and> value_ok p (dest a) v)"
    and "\<forall>a \<in> set (seen_non_default_actions st).
        map_of (namespace st) (dest a) \<noteq> Some PyNone"
    and "\<forall>g \<in> set (mutually_exclusive_groups p).
        \<forall>a \<in> set (group_actions g). \<forall>b \<in> set (group_actions g).
          a \<in> set (seen_non_default_actions st) \<longrightarrow> b \<in> set (seen_non_default_actions st)
            \<longrightarrow> a = b"
    and "map_of (namespace st) UNRECOGNIZED_ARGS_ATTR = None"
    and "distinct (map fst (namespace st))"
  using assms unfolding inv_def by blast+

lemma map_of_setattr: "map_of (setattr ns k v) = (map_of ns)(k \<mapsto> v)"
  by (simp add: setattr_def update_conv')

lemma keys_setattr: "fst ` set (setattr ns k v) = insert k (fst ` set ns)"
  by (simp add: setattr_def dom_update)

lemma conflicts_member:
  "g \<in> set (mutually_exclusive_groups p) \<Longrightarrow> a \<in> set (group_actions g) \<Longrightarrow>
   b \<in> set (group_actions g) \<Longrightarrow> b \<noteq> a \<Longrightarrow> b \<in> set (action_conflicts p a)"
  by (auto simp: action_conflicts_def)

lemma take_action_Ok:
  assumes "take_action call p a args st = Ok st'" and "kind a = Store \<or> (\<exists>c. kind a = StoreConst c)"
  shows "\<exists>v. get_values a args = Ok v \<and>
           (\<forall>c \<in> set (action_conflicts p a). c \<noteq> a \<and> c \<notin> set (seen_non_default_actions st)) \<and>
           st' = st\<lparr>seen_actions := a # seen_actions st,
                    seen_non_default_actions := a # seen_non_default_actions st,
                    namespace := setattr (namespace st) (dest a)
                       (case kind a of StoreConst c \<Rightarrow> PyStr c | _ \<Rightarrow> v)\<rparr>"
  using assms
  by (auto simp: take_action_def Let_def filter_empty_conv
        split: result.splits list.splits action_kind.splits)

lemma take_action_Help: "kind a = HelpAction \<Longrightarrow> take_action call p a args st \<noteq> Ok st'"
  by (auto simp: take_action_def Let_def split: result.splits list.splits)

lemma take_action_inv:
  assumes sub: "sub_level p" and i: "inv p st" and a: "a \<in> set (actions p)"
    and len: "kind a = Store \<longrightarrow> length args = 1"
    and ok: "take_action call p a args st = Ok st'"
  shows "inv p st' \<and> extras st' = extras st \<and>
         set (seen_non_default_actions st') = insert a (set (seen_non_default_actions st))"
proof -
  from sub a ok have k: "kind a = Store \<or> (\<exists>c. kind a = StoreConst c)"
    by (cases "kind a") (auto simp: sub_level_def take_action_Help take_action_def Let_def
          split: result.splits list.splits)
  from take_action_Ok [OF ok k] obtain v where
    v: "get_values a args = Ok v"
    and nc: "\<forall>c \<in> set (action_conflicts p a). c \<noteq> a \<and> c \<notin> set (seen_non_default_actions st)"
    and st': "st' = st\<lparr>seen_actions := a # seen_actions st,
                    seen_non_default_actions := a # seen_non_default_actions st,
                    namespace := setattr (namespace st) (dest a)
                       (case kind a of StoreConst c \<Rightarrow> PyStr c | _ \<Rightarrow> v)\<rparr>"
    by blast
  define w where "w = (case kind a of StoreConst c \<Rightarrow> PyStr c | _ \<Rightarrow> v)"
  have w: "w \<noteq> PyNone" "value_ok p (dest a) w"
  proof -
    from k show "w \<noteq> PyNone"
    proof
      assume s: "kind a = Store"
      with len obtain x where "args = [x]" by (cases args) auto
      with s v show ?thesis by (auto simp: w_def get_values_def)
    next
      assume "\<exists>c. kind a = StoreConst c"
      then show ?thesis by (auto simp: w_def)
    qed
    from k show "value_ok p (dest a) w"
    proof
      assume s: "kind a = Store"
      with len obtain x where "args = [x]" by (cases args) auto
      with s v a show ?thesis by (auto simp: w_def get_values_def value_ok_def is_str_def)
    next
      assume "\<exists>c. kind a = StoreConst c"
      with a show ?thesis by (auto simp: w_def value_ok_def)
    qed
  qed
  have ns: "map_of (namespace st') = (map_of (namespace st))(dest a \<mapsto> w)"
    by (simp add: st' map_of_setattr w_def)
  have keys: "fst ` set (namespace st') = insert (dest a) (fst ` set (namespace st))"
    by (simp add: st' keys_setattr)
  have seen: "seen_non_default_actions st' = a # seen_non_default_actions st"
    "seen_actions st' = a # seen_actions st" "positionals st' = positionals st"
    "extras st' = extras st"
    by (simp_all add: st')
  have 1: "positionals st' = []" using i by (simp add: seen inv_def)
  have 2: "set (seen_actions st') \<subseteq> set (seen_non_default_actions st')"
    using i by (auto simp: seen inv_def)
  have 3: "set (seen_non_default_actions st') \<subseteq> set (actions p)"
    using i a by (auto simp: seen inv_def)
  have 4: "\<forall>b \<in> set (actions p). kind b \<noteq> HelpAction \<longrightarrow>
        (\<exists>v. map_of (namespace st') (dest b) = Some v \<and> value_ok p (dest b) v)"
    using i w by (auto simp: ns inv_def)
  have 5: "\<forall>b \<in> set (seen_non_default_actions st'). map_of (namespace st') (dest b) \<noteq> Some PyNone"
    using i w by (auto simp: ns seen inv_def)
  have 6: "\<forall>g \<in> set (mutually_exclusive_groups p).
        \<forall>x \<in> set (group_actions g). \<forall>y \<in> set (group_actions g).
          x \<in> set (seen_non_default_actions st') \<longrightarrow> y \<in> set (seen_non_default_actions st')
            \<longrightarrow> x = y"
  proof (intro ballI impI)
    fix g x y
    assume g: "g \<in> set (mutually_exclusive_groups p)"
      and x: "x \<in> set (group_actions g)" and y: "y \<in> set (group_actions g)"
      and xs: "x \<in> set (seen_non_default_actions st')"
      and ys: "y \<in> set (seen_non_default_actions st')"
    show "x = y"
    proof (cases "x = a")
      case True
      show ?thesis
      proof (rule ccontr)
        assume "x \<noteq> y"
        with True have "y \<noteq> a" by simp
        with g x y True have "y \<in> set (action_conflicts p a)" by (auto intro: conflicts_member)
        with nc have "y \<notin> set (seen_non_default_actions st)" by blast
        with ys \<open>y \<noteq> a\<close> show False by (simp add: seen)
      qed
    next
      case False
      with xs have xs': "x \<in> set (seen_non_default_actions st)" by (simp add: seen)
      show ?thesis
      proof (cases "y = a")
        case True
        with g x y False have "x \<in> set (action_conflicts p a)" by (auto intro: conflicts_member)
        with nc xs' show ?thesis by blast
      next
        case ya: False
        with ys have "y \<in> set (seen_non_default_actions st)" by (simp add: seen)
        with i g x y xs' show ?thesis unfolding inv_def by blast
      qed
    qed
  qed
  have 7: "map_of (namespace st') UNRECOGNIZED_ARGS_ATTR = None"
    using i a k sub by (auto simp: ns inv_def sub_level_def)
  have 8: "distinct (map fst (namespace st'))"
    using i by (simp add: st' setattr_def distinct_update inv_def)
  from 1 2 3 4 5 6 7 8 show ?thesis
    unfolding inv_def [of p st'] by (simp add: seen)
qed

subsection \<open>The action tuples of an option string\<close>

lemma option_string_actions_member:
  "(s, a) \<in> set (option_string_actions p) \<Longrightarrow> a \<in> set (actions p)"
  by (auto simp: option_string_actions_def)

lemma map_of_option_string_actions:
  "map_of (option_string_actions p) s = Some a \<Longrightarrow> a \<in> set (actions p)"
  by (auto dest: map_of_SomeD option_string_actions_member)

lemma match_argument_Store:
  "kind a = Store \<Longrightarrow> match_argument a pats = Ok n \<Longrightarrow> n = 1 \<and> pats \<noteq> []"
  by (auto simp: match_argument_def nargs_of_def split: list.splits pat.splits)

lemma match_argument_explicit:
  "match_argument a [PA] = Ok n \<Longrightarrow> (n = 0 \<and> kind a \<noteq> Store) \<or> n = 1"
  by (cases "kind a") (auto simp: match_argument_def nargs_of_def)

lemma optional_tuples_ok:
  assumes "optional_tuples p arg_string pats strings act option_string sep explicit_arg acc
             = Ok (ts, ex, n)"
    and "case act of None \<Rightarrow> True | Some a \<Rightarrow> a \<in> set (actions p)"
    and "length pats = length strings" and "tuples_ok p acc"
  shows "tuples_ok p ts"
  using assms
proof (induction p arg_string pats strings act option_string sep explicit_arg acc
    rule: optional_tuples.induct)
  case (1 p arg_string pats strings act option_string sep explicit_arg action_tuples)
  note unf = optional_tuples.simps [of p arg_string pats strings act option_string sep
      explicit_arg action_tuples]
  have prem: "(case act of
        None \<Rightarrow> Ok ([], [arg_string], 0)
      | Some a \<Rightarrow>
          (case explicit_arg of
             None \<Rightarrow>
               (case match_argument a pats of
                  Error e \<Rightarrow> Error e
                | HelpExit \<Rightarrow> HelpExit
                | Ok arg_count \<Rightarrow>
                    Ok (action_tuples @ [(a, take arg_count strings, option_string)], [],
                        arg_count))
           | Some e \<Rightarrow>
               (case match_argument a [PA] of
                  Error err \<Rightarrow> Error err
                | HelpExit \<Rightarrow> HelpExit
                | Ok arg_count \<Rightarrow>
                    if arg_count = 0 \<and> \<not> second_is_dash option_string \<and> e \<noteq> [] then
                      if (sep \<noteq> None \<and> sep \<noteq> Some []) \<or> hd e = CHR ''-'' then
                        Error (IgnoredExplicitArgument e)
                      else
                        (case map_of (option_string_actions p) [hd option_string, hd e] of
                           None \<Rightarrow>
                             Ok (action_tuples @ [(a, [], option_string)],
                                 [hd option_string # e], 0)
                         | Some a' \<Rightarrow>
                             if tl e = [] then
                               optional_tuples p arg_string pats strings (Some a')
                                 [hd option_string, hd e] None None
                                 (action_tuples @ [(a, [], option_string)])
                             else if hd (tl e) = CHR ''='' then
                               optional_tuples p arg_string pats strings (Some a')
                                 [hd option_string, hd e] (Some ''='') (Some (tl (tl e)))
                                 (action_tuples @ [(a, [], option_string)])
                             else
                               optional_tuples p arg_string pats strings (Some a')
                                 [hd option_string, hd e] (Some []) (Some (tl e))
                                 (action_tuples @ [(a, [], option_string)]))
                    else if arg_count = 1 then
                      Ok (action_tuples @ [(a, [e], option_string)], [], 0)
                    else Error (IgnoredExplicitArgument e)))) = Ok (ts, ex, n)"
    using "1.prems"(1) unfolding unf .
  show ?case
  proof (cases act)
    case None
    with prem show ?thesis
      by (simp add: tuples_ok_def)
  next
    case (Some a)
    with "1.prems"(2) have a: "a \<in> set (actions p)" by simp
    show ?thesis
    proof (cases explicit_arg)
      case None
      with Some prem obtain arg_count where
        m: "match_argument a pats = Ok arg_count"
        and ts: "ts = action_tuples @ [(a, take arg_count strings, option_string)]"
        by (auto split: result.splits)
      have "kind a = Store \<longrightarrow> length (take arg_count strings) = 1"
      proof
        assume "kind a = Store"
        from match_argument_Store [OF this m] "1.prems"(3) show "length (take arg_count strings) = 1"
          by (cases strings) auto
      qed
      with a "1.prems"(4) show ?thesis by (auto simp: ts tuples_ok_def)
    next
      case (Some e)
      note e = this
      from \<open>act = Some a\<close> e prem obtain arg_count where
        m: "match_argument a [PA] = Ok arg_count"
        by (auto split: result.splits)
      let ?acc' = "action_tuples @ [(a, [], option_string)]"
      show ?thesis
      proof (cases "arg_count = 0 \<and> \<not> second_is_dash option_string \<and> e \<noteq> []")
        case True
        with m match_argument_explicit [OF m] have ns: "kind a \<noteq> Store" by auto
        with a "1.prems"(4) have acc': "tuples_ok p ?acc'" by (auto simp: tuples_ok_def)
        from True \<open>act = Some a\<close> e m prem
        have nerr: "\<not> ((sep \<noteq> None \<and> sep \<noteq> Some []) \<or> hd e = CHR ''-'')"
          by (auto split: if_splits)
        show ?thesis
        proof (cases "map_of (option_string_actions p) [hd option_string, hd e]")
          case None
          with True \<open>act = Some a\<close> e m nerr prem have "ts = ?acc'"
            by (auto split: if_splits)
          with acc' show ?thesis by simp
        next
          case (Some a')
          then have a': "a' \<in> set (actions p)" by (rule map_of_option_string_actions)
          show ?thesis
          proof (cases "tl e = []")
            case t: True
            with True \<open>act = Some a\<close> e m nerr Some prem
            have "optional_tuples p arg_string pats strings (Some a') [hd option_string, hd e]
                    None None ?acc' = Ok (ts, ex, n)"
              by (cases sep) auto
            from "1.IH"(1) [OF \<open>act = Some a\<close> e m True nerr Some t this] a' acc' "1.prems"(3)
            show ?thesis by auto
          next
            case f: False
            show ?thesis
            proof (cases "hd (tl e) = CHR ''=''")
              case tt: True
              with f True \<open>act = Some a\<close> e m nerr Some prem
              have "optional_tuples p arg_string pats strings (Some a') [hd option_string, hd e]
                      (Some ''='') (Some (tl (tl e))) ?acc' = Ok (ts, ex, n)"
                by (cases sep) auto
              from "1.IH"(2) [OF \<open>act = Some a\<close> e m True nerr Some f tt this] a' acc' "1.prems"(3)
              show ?thesis by auto
            next
              case ff: False
              with f True \<open>act = Some a\<close> e m nerr Some prem
              have "optional_tuples p arg_string pats strings (Some a') [hd option_string, hd e]
                      (Some []) (Some (tl e)) ?acc' = Ok (ts, ex, n)"
                by (cases sep) auto
              from "1.IH"(3) [OF \<open>act = Some a\<close> e m True nerr Some f ff this] a' acc' "1.prems"(3)
              show ?thesis by auto
            qed
          qed
        qed
      next
        case False
        with \<open>act = Some a\<close> e m prem have "arg_count = 1" "ts = action_tuples @ [(a, [e], option_string)]"
          by (auto split: if_splits)
        with a "1.prems"(4) show ?thesis by (auto simp: tuples_ok_def)
      qed
    qed
  qed
qed

subsection \<open>The loop\<close>

lemma inv_extras: "inv p (st\<lparr>extras := ex\<rparr>) = inv p st"
  by (simp add: inv_def)

lemma take_actions_inv:
  assumes "sub_level p" and "tuples_ok p ts" and "inv p st"
    and "take_actions call p ts st = Ok st'"
  shows "inv p st'"
  using assms(2-)
proof (induction ts arbitrary: st)
  case Nil
  then show ?case by simp
next
  case (Cons t ts)
  obtain a args s where t: "t = (a, args, s)" by (cases t)
  from Cons.prems(3) obtain st1 where
    1: "take_action call p a args st = Ok st1" and 2: "take_actions call p ts st1 = Ok st'"
    by (auto simp: t split: result.splits)
  from Cons.prems(1) have a: "a \<in> set (actions p)" "kind a = Store \<longrightarrow> length args = 1"
    and ts: "tuples_ok p ts"
    by (auto simp: t tuples_ok_def)
  from take_action_inv [OF assms(1) Cons.prems(2) a 1] have "inv p st1" by simp
  from Cons.IH [OF ts this 2] show ?case .
qed

lemma consume_optional_inv:
  assumes "sub_level p" and "inv p st" and "tuple_known p t"
    and "consume_optional call p st arg_string t following = Ok (st', n)"
  shows "inv p st'"
proof -
  obtain act option_string sep explicit_arg where t: "t = (act, option_string, sep, explicit_arg)"
    by (cases t)
  from assms(4) obtain ts ex where
    1: "optional_tuples p arg_string (map snd following) (map fst following) act option_string
          sep explicit_arg [] = Ok (ts, ex, n)"
    and 2: "take_actions call p ts (st\<lparr>extras := extras st @ ex\<rparr>) = Ok st'"
    by (auto simp: consume_optional_def t split: result.splits)
  from assms(3) have "case act of None \<Rightarrow> True | Some a \<Rightarrow> a \<in> set (actions p)"
    by (simp add: tuple_known_def t)
  from optional_tuples_ok [OF 1 this] have "tuples_ok p ts" by (simp add: tuples_ok_def)
  from take_actions_inv [OF assms(1) this _ 2] assms(2) show ?thesis by (simp add: inv_extras)
qed

lemma consume_positionals_none:
  "positionals st = [] \<Longrightarrow> consume_positionals call p st rest = Ok (st, 0)"
  by (simp add: consume_positionals_def match_arguments_partial_def)

lemma rest_known_drop: "rest_known p rest \<Longrightarrow> rest_known p (drop n rest)"
  by (auto simp: rest_known_def dest: in_set_dropD)

lemma rest_known_dropWhile:
  "rest_known p rest \<Longrightarrow> dropWhile P rest = x # xs \<Longrightarrow>
   rest_known p xs \<and> (case snd x of PO t \<Rightarrow> tuple_known p t | _ \<Rightarrow> True)"
proof -
  assume r: "rest_known p rest" and d: "dropWhile P rest = x # xs"
  have "set (dropWhile P rest) \<subseteq> set rest" by (rule set_dropWhileD [THEN subsetI])
  with r d show ?thesis by (auto simp: rest_known_def)
qed

lemma parse_loop_inv:
  assumes "sub_level p" and "inv p st" and "rest_known p rest"
    and "parse_loop call p st rest = Ok (st', rest')"
  shows "inv p st'"
  using assms
proof (induction call p st rest rule: parse_loop.induct)
  case (1 call p st rest)
  note unf = parse_loop.simps [of call p st rest]
  from "1.prems"(2) have pos: "positionals st = []" by (simp add: inv_def)
  show ?case
  proof (cases "dropWhile (\<lambda>x. \<not> is_option (snd x)) rest")
    case Nil
    with "1.prems"(4) have "st' = st" by (simp add: unf)
    with "1.prems"(2) show ?thesis by simp
  next
    case (Cons x following)
    obtain arg_string pt where x: "x = (arg_string, pt)" by (cases x)
    from rest_known_dropWhile [OF "1.prems"(3) Cons]
    have fk: "rest_known p following" and ptk: "case pt of PO t \<Rightarrow> tuple_known p t | _ \<Rightarrow> True"
      by (simp_all add: x)
    let ?leading = "takeWhile (\<lambda>x. \<not> is_option (snd x)) rest"
    have cp: "(if ?leading \<noteq> [] then consume_positionals call p st rest else Ok (st, 0)) = Ok (st, 0)"
      by (simp add: consume_positionals_none [OF pos])
    show ?thesis
    proof (cases pt)
      case (PO t)
      with ptk have tk: "tuple_known p t" by simp
      let ?st1 = "st\<lparr>extras := extras st @ map fst ?leading\<rparr>"
      from "1.prems"(4) Cons x PO cp obtain st2 arg_count where
        co: "consume_optional call p ?st1 arg_string t following = Ok (st2, arg_count)"
        and lp: "parse_loop call p st2 (drop arg_count following) = Ok (st', rest')"
        by (auto simp: unf Let_def split: result.splits)
      from "1.prems"(2) have "inv p ?st1" by (simp add: inv_extras)
      from consume_optional_inv [OF "1.prems"(1) this tk co] have i2: "inv p st2" .
      from "1.IH"(2) [OF Cons x [symmetric] refl cp refl _ PO co refl "1.prems"(1) i2 rest_known_drop [OF fk] lp]
      show ?thesis by simp
    next
      case PA
      with Cons x have "is_option (snd (hd (dropWhile (\<lambda>x. \<not> is_option (snd x)) rest)))"
        using hd_dropWhile [of "\<lambda>x. \<not> is_option (snd x)" rest] by simp
      with Cons x PA show ?thesis by (simp add: is_option_def)
    next
      case PDash
      with Cons x have "is_option (snd (hd (dropWhile (\<lambda>x. \<not> is_option (snd x)) rest)))"
        using hd_dropWhile [of "\<lambda>x. \<not> is_option (snd x)" rest] by simp
      with Cons x PDash show ?thesis by (simp add: is_option_def)
    qed
  qed
qed

subsection \<open>The pattern, and what an accepted run guarantees\<close>

lemma get_option_tuples_known:
  "get_option_tuples p s = Ok ts \<Longrightarrow> t \<in> set ts \<Longrightarrow> tuple_known p t"
  by (auto simp: get_option_tuples_def tuple_known_def Let_def
        split: list.splits if_splits prod.splits)
     (erule option_string_actions_member)+

lemma parse_optional_known:
  assumes "parse_optional p s = Ok (Some t)"
  shows "tuple_known p t"
proof (cases "map_of (option_string_actions p) s")
  case (Some a)
  with assms show ?thesis
    by (auto simp: parse_optional_def tuple_known_def split: if_splits
          dest: map_of_option_string_actions)
next
  case None
  obtain os sep ea where pe: "partition_eq s = (os, sep, ea)" by (cases "partition_eq s") auto
  show ?thesis
  proof (cases "sep \<noteq> [] \<and> map_of (option_string_actions p) os \<noteq> None")
    case True
    with assms None pe show ?thesis
      by (auto simp: parse_optional_def tuple_known_def split: if_splits
            dest: map_of_option_string_actions)
  next
    case False
    with assms None pe obtain ts where ts: "get_option_tuples p s = Ok ts"
      and t: "length ts = 1 \<and> t = hd ts \<or> t = (None, s, None, None)"
      by (cases "get_option_tuples p s")
         (auto simp: parse_optional_def split: if_splits)
    from t show ?thesis
    proof
      assume "length ts = 1 \<and> t = hd ts"
      then have "t \<in> set ts" by (cases ts) auto
      with ts show ?thesis by (rule get_option_tuples_known)
    next
      assume "t = (None, s, None, None)"
      then show ?thesis by (simp add: tuple_known_def)
    qed
  qed
qed

lemma arg_strings_pattern_known:
  "arg_strings_pattern p args = Ok pats \<Longrightarrow>
   length pats = length args \<and> rest_known p (zip args pats)"
proof (induction args arbitrary: pats)
  case Nil
  then show ?case by (simp add: rest_known_def)
next
  case (Cons s ss)
  show ?case
  proof (cases "s = ''--''")
    case True
    with Cons.prems have pats: "pats = PDash # map (\<lambda>_. PA) ss" by simp
    have "\<forall>x \<in> set (zip ss (map (\<lambda>_. PA) ss)). snd x = PA"
      by (auto simp: set_zip)
    then show ?thesis by (auto simp: pats rest_known_def)
  next
    case False
    with Cons.prems obtain ot ps where
      1: "parse_optional p s = Ok ot" and 2: "arg_strings_pattern p ss = Ok ps"
      and pats: "pats = (case ot of None \<Rightarrow> PA | Some t \<Rightarrow> PO t) # ps"
      by (auto split: result.splits)
    from Cons.IH [OF 2] have ih: "length ps = length ss" "rest_known p (zip ss ps)" by simp_all
    from 1 have "case ot of None \<Rightarrow> True | Some t \<Rightarrow> tuple_known p t"
      by (auto split: option.splits dest: parse_optional_known)
    with ih show ?thesis by (auto simp: pats rest_known_def split: option.splits)
  qed
qed

lemma parse_known_args_state_inv:
  assumes sub: "sub_level p"
    and i0: "inv p \<lparr>namespace = ns, seen_actions = [], seen_non_default_actions = [],
                     extras = [], positionals = get_positional_actions p\<rparr>"
    and ok: "parse_known_args_state call p args ns = Ok st"
  shows "inv p st \<and>
         (\<forall>a \<in> set (actions p). required a \<longrightarrow> a \<in> set (seen_non_default_actions st)) \<and>
         (\<forall>g \<in> set (mutually_exclusive_groups p). group_required g \<longrightarrow>
            (\<exists>a \<in> set (group_actions g). a \<in> set (seen_non_default_actions st)))"
proof -
  let ?st0 = "\<lparr>namespace = ns, seen_actions = [], seen_non_default_actions = [],
               extras = [], positionals = get_positional_actions p\<rparr>"
  from ok obtain pats st1 rest st2 n where
    pats: "arg_strings_pattern p args = Ok pats"
    and lp: "parse_loop call p ?st0 (zip args pats) = Ok (st1, rest)"
    and cp: "consume_positionals call p st1 rest = Ok (st2, n)"
    and req: "filter (\<lambda>a. a \<notin> set (seen_actions (st2\<lparr>extras := extras st2 @ map fst (drop n rest)\<rparr>))
                  \<and> required a) (actions p) = []"
    and grp: "filter (\<lambda>g. group_required g \<and>
                 \<not> list_ex (\<lambda>a. a \<in> set (seen_non_default_actions
                      (st2\<lparr>extras := extras st2 @ map fst (drop n rest)\<rparr>))) (group_actions g))
               (mutually_exclusive_groups p) = []"
    and st: "st = st2\<lparr>extras := extras st2 @ map fst (drop n rest)\<rparr>"
    by (auto simp: parse_known_args_state_def Let_def split: result.splits if_splits list.splits)
  from arg_strings_pattern_known [OF pats] have rk: "rest_known p (zip args pats)" by simp
  from parse_loop_inv [OF sub i0 rk lp] have i1: "inv p st1" .
  then have "positionals st1 = []" by (simp add: inv_def)
  from consume_positionals_none [OF this] cp have "st2 = st1" by simp
  with i1 have i: "inv p st" by (simp add: st inv_extras)
  from i have sub_seen: "set (seen_actions st) \<subseteq> set (seen_non_default_actions st)"
    by (simp add: inv_def)
  from req sub_seen have 1: "\<forall>a \<in> set (actions p). required a \<longrightarrow> a \<in> set (seen_non_default_actions st)"
    by (auto simp: filter_empty_conv st)
  from grp have 2: "\<forall>g \<in> set (mutually_exclusive_groups p). group_required g \<longrightarrow>
            (\<exists>a \<in> set (group_actions g). a \<in> set (seen_non_default_actions st))"
    by (auto simp: filter_empty_conv st list_ex_iff)
  from i 1 2 show ?thesis by simp
qed

section \<open>The four sub-parsers\<close>

lemma sub_level_parsers:
  "sub_level parser_create" "sub_level parser_delete" "sub_level parser_info"
  "sub_level parser_status"
  by (simp_all add: sub_level_def parser_create_def parser_delete_def parser_info_def
        parser_status_def help_action_def create_name_def create_groups_def create_os_def
        ident_name_def ident_uuid_def status_start_def status_stop_def
        UNRECOGNIZED_ARGS_ATTR_def)

lemma add_defaults_parsers:
  "add_defaults parser_create [] =
     [(''vbox_vm_name'', PyNone), (''vbox_vm_groups'', PyNone), (''vbox_vm_os'', PyNone)]"
  "add_defaults parser_delete [] = [(''vbox_vm_identifier'', PyNone)]"
  "add_defaults parser_info [] = [(''vbox_vm_identifier'', PyNone)]"
  "add_defaults parser_status [] =
     [(''vbox_vm_action'', PyNone), (''vbox_vm_identifier'', PyNone)]"
  by code_simp+

lemma positional_parsers:
  "get_positional_actions parser_create = []" "get_positional_actions parser_delete = []"
  "get_positional_actions parser_info = []" "get_positional_actions parser_status = []"
  by code_simp+

lemma inv0_create: "inv parser_create (state0 parser_create)"
  by (simp add: inv_def state0_def add_defaults_parsers positional_parsers value_ok_def
        UNRECOGNIZED_ARGS_ATTR_def)
     (simp add: parser_create_def help_action_def create_name_def create_groups_def
        create_os_def)

lemma inv0_delete: "inv parser_delete (state0 parser_delete)"
  by (simp add: inv_def state0_def add_defaults_parsers positional_parsers value_ok_def
        UNRECOGNIZED_ARGS_ATTR_def)
     (simp add: parser_delete_def help_action_def ident_name_def ident_uuid_def)

lemma inv0_info: "inv parser_info (state0 parser_info)"
  by (simp add: inv_def state0_def add_defaults_parsers positional_parsers value_ok_def
        UNRECOGNIZED_ARGS_ATTR_def)
     (simp add: parser_info_def help_action_def ident_name_def ident_uuid_def)

lemma inv0_status: "inv parser_status (state0 parser_status)"
  by (simp add: inv_def state0_def add_defaults_parsers positional_parsers value_ok_def
        UNRECOGNIZED_ARGS_ATTR_def)
     (simp add: parser_status_def help_action_def ident_name_def ident_uuid_def
        status_start_def status_stop_def)

lemma parse_known_args_sub:
  assumes "sub_level p" and "inv p (state0 p)"
  shows "parse_known_args call p args =
     (case parse_known_args_state call p args (add_defaults p []) of
        Error e \<Rightarrow> Error e
      | HelpExit \<Rightarrow> HelpExit
      | Ok st \<Rightarrow> Ok (namespace st, extras st))"
proof (cases "parse_known_args_state call p args (add_defaults p [])")
  case (Ok st)
  from parse_known_args_state_inv [OF assms(1) assms(2) [unfolded state0_def] Ok]
  have "inv p st" by simp
  then have "map_of (namespace st) UNRECOGNIZED_ARGS_ATTR = None" by (rule invD(7))
  with Ok show ?thesis by (simp add: parse_known_args_def)
qed (simp_all add: parse_known_args_def)

lemma accepted_status:
  assumes "parse_known_args_state call parser_status rest (add_defaults parser_status []) = Ok st"
  shows "(\<exists>v. map_of (namespace st) ''vbox_vm_identifier'' = Some (PyStr v)) \<and>
         (map_of (namespace st) ''vbox_vm_action'' = Some (PyStr ''start'') \<or>
          map_of (namespace st) ''vbox_vm_action'' = Some (PyStr ''stop'')) \<and>
         (ident_name \<in> set (seen_non_default_actions st)) \<noteq>
           (ident_uuid \<in> set (seen_non_default_actions st)) \<and>
         (status_start \<in> set (seen_non_default_actions st)) \<noteq>
           (status_stop \<in> set (seen_non_default_actions st))"
proof -
  let ?S = "set (seen_non_default_actions st)"
  from parse_known_args_state_inv [OF sub_level_parsers(4) inv0_status [unfolded state0_def] assms]
  have i: "inv parser_status st"
    and g: "\<forall>g \<in> set (mutually_exclusive_groups parser_status). group_required g \<longrightarrow>
            (\<exists>a \<in> set (group_actions g). a \<in> ?S)"
    by simp_all
  from g have ops: "status_start \<in> ?S \<or> status_stop \<in> ?S"
    and lab: "ident_name \<in> ?S \<or> ident_uuid \<in> ?S"
    by (simp_all add: parser_status_def vm_status_exclusive_args_ops_def
          vm_status_exclusive_args_label_def)
  note mx = invD(6) [OF i]
  have ne: "status_start \<noteq> status_stop" "ident_name \<noteq> ident_uuid"
    by (simp_all add: status_start_def status_stop_def ident_name_def ident_uuid_def)
  from mx ne have x1: "\<not> (status_start \<in> ?S \<and> status_stop \<in> ?S)"
    and x2: "\<not> (ident_name \<in> ?S \<and> ident_uuid \<in> ?S)"
    by (auto simp: parser_status_def vm_status_exclusive_args_ops_def
          vm_status_exclusive_args_label_def)
  note nn = invD(5) [OF i] and vo = invD(4) [OF i]
  from vo obtain va vi where
    va: "map_of (namespace st) ''vbox_vm_action'' = Some va"
        "value_ok parser_status ''vbox_vm_action'' va"
    and vi: "map_of (namespace st) ''vbox_vm_identifier'' = Some vi"
        "value_ok parser_status ''vbox_vm_identifier'' vi"
    by (auto simp: parser_status_def status_start_def ident_name_def help_action_def)
  from nn ops va have "va \<noteq> PyNone"
    by (auto simp: status_start_def status_stop_def)
  with va(2) have a: "va = PyStr ''start'' \<or> va = PyStr ''stop''"
    by (auto simp: value_ok_def parser_status_def status_start_def status_stop_def
          ident_name_def ident_uuid_def help_action_def)
  from nn lab vi have "vi \<noteq> PyNone"
    by (auto simp: ident_name_def ident_uuid_def)
  with vi(2) have "is_str vi"
    by (auto simp: value_ok_def parser_status_def status_start_def status_stop_def
          ident_name_def ident_uuid_def help_action_def)
  then obtain v where "vi = PyStr v" by (cases vi) (auto simp: is_str_def)
  with vi va a ops lab x1 x2 show ?thesis by auto
qed

section \<open>The top-level parser\<close>

lemma top_option_string_actions:
  "option_string_actions parser = [(''-h'', help_action), (''--help'', help_action)]"
  by (simp add: option_string_actions_def parser_def help_action_def subparsers_def)

lemma top_get_option_tuples:
  "get_option_tuples parser s = Ok ts \<Longrightarrow> length ts \<le> 1"
  by (auto simp: get_option_tuples_def top_option_string_actions Let_def startswith_def
        partition_eq_def split: list.splits if_splits)

lemma top_get_option_tuples_total:
  "s \<noteq> [] \<Longrightarrow> hd s = CHR ''-'' \<Longrightarrow> length s \<noteq> 1 \<Longrightarrow> \<exists>ts. get_option_tuples parser s = Ok ts"
  by (cases s; cases "tl s")
     (auto simp: get_option_tuples_def Let_def split: prod.splits)

lemma top_parse_optional_total: "\<exists>r. parse_optional parser s = Ok r"
proof (cases "s \<noteq> [] \<and> hd s = CHR ''-'' \<and> length s \<noteq> 1")
  case True
  with top_get_option_tuples_total obtain ts where ts: "get_option_tuples parser s = Ok ts"
    by blast
  from top_get_option_tuples [OF ts] have "length ts \<le> 1" .
  with ts show ?thesis
    by (auto simp: parse_optional_def Let_def split: option.splits prod.splits)
next
  case False
  then show ?thesis
    by (auto simp: parse_optional_def Let_def split: option.splits prod.splits)
qed

lemma top_arg_strings_pattern_total:
  "\<exists>pats. arg_strings_pattern parser args = Ok pats \<and> length pats = length args"
proof (induction args)
  case Nil
  then show ?case by simp
next
  case (Cons s ss)
  then obtain ps where ps: "arg_strings_pattern parser ss = Ok ps" "length ps = length ss"
    by blast
  from top_parse_optional_total obtain r where "parse_optional parser s = Ok r" by blast
  with ps show ?case by simp
qed

lemma top_positionals: "get_positional_actions parser = [subparsers]"
  by (simp add: get_positional_actions_def parser_def help_action_def subparsers_def)

lemma subcommand_pattern:
  assumes "subcommand name"
  shows "\<exists>pats. arg_strings_pattern parser (name # rest) = Ok (PA # pats) \<and>
           length pats = length rest"
proof -
  from assms have "name \<noteq> ''--''" and "parse_optional parser name = Ok None"
    by (auto simp: subcommand_def parse_optional_def)
  moreover from top_arg_strings_pattern_total obtain ps
    where "arg_strings_pattern parser rest = Ok ps" "length ps = length rest" by blast
  ultimately show ?thesis by simp
qed

lemma top_take_action:
  assumes "subcommand name"
  shows "take_action call parser subparsers (name # rest)
           \<lparr>namespace = [], seen_actions = [], seen_non_default_actions = [],
            extras = [], positionals = [subparsers]\<rparr> =
         (case call [] (PyList (name # rest)) of
            Error e \<Rightarrow> Error e
          | HelpExit \<Rightarrow> HelpExit
          | Ok ns \<Rightarrow> Ok ((top_final ns)\<lparr>positionals := [subparsers]\<rparr>))"
proof -
  have c: "action_conflicts parser subparsers = []"
    by (simp add: action_conflicts_def parser_def)
  have k: "kind subparsers = SubParsersAction [''create'', ''delete'', ''info'', ''status'']"
    by (simp add: subparsers_def name_parser_map_def)
  from assms have g: "get_values subparsers (name # rest) = Ok (PyList (name # rest))"
    by (auto simp: get_values_def k subcommand_def)
  show ?thesis
    by (simp add: take_action_def g c k top_final_def split: result.splits)
qed

lemma top_consume_positionals:
  assumes "subcommand name" and "length pats = length rest"
  shows "consume_positionals call parser
           \<lparr>namespace = [], seen_actions = [], seen_non_default_actions = [],
            extras = [], positionals = [subparsers]\<rparr> ((name, PA) # zip rest pats) =
         (case call [] (PyList (name # rest)) of
            Error e \<Rightarrow> Error e
          | HelpExit \<Rightarrow> HelpExit
          | Ok ns \<Rightarrow> Ok (top_final ns, Suc (length rest)))"
  using assms(2)
  by (simp add: consume_positionals_def match_arguments_partial_def is_dash_def
        top_take_action [OF assms(1)] top_final_def split: result.splits)

lemma top_parse_known_args_state:
  assumes "subcommand name"
  shows "parse_known_args_state call parser (name # rest) [] =
         (case call [] (PyList (name # rest)) of
            Error e \<Rightarrow> Error e
          | HelpExit \<Rightarrow> HelpExit
          | Ok ns \<Rightarrow> Ok (top_final ns))"
proof -
  from subcommand_pattern [OF assms] obtain pats where
    pats: "arg_strings_pattern parser (name # rest) = Ok (PA # pats)"
    and len: "length pats = length rest" by blast
  let ?st0 = "\<lparr>namespace = [], seen_actions = [], seen_non_default_actions = [],
               extras = [], positionals = [subparsers]\<rparr>"
  let ?rest0 = "(name, PA) # zip rest pats"
  note cp = top_consume_positionals [OF assms len, of call]
  have fin: "filter (\<lambda>a. a \<notin> set (seen_actions (top_final ns)) \<and> required a) (actions parser) = []"
    "mutually_exclusive_groups parser = []" for ns
    by (simp_all add: parser_def top_final_def help_action_def subparsers_def)
  have h: "is_option PA = False" by (simp add: is_option_def)
  have loop: "parse_loop call parser ?st0 ?rest0 =
     (if list_ex (\<lambda>x. is_option (snd x)) (zip rest pats) then
        (case call [] (PyList (name # rest)) of
           Error e \<Rightarrow> Error e
         | HelpExit \<Rightarrow> HelpExit
         | Ok ns \<Rightarrow> Ok (top_final ns, []))
      else Ok (?st0, ?rest0))"
  proof (cases "dropWhile (\<lambda>x. \<not> is_option (snd x)) (zip rest pats)")
    case Nil
    then have nex: "\<not> list_ex (\<lambda>x. is_option (snd x)) (zip rest pats)"
      by (auto simp: list_ex_iff dropWhile_eq_Nil_conv)
    have "dropWhile (\<lambda>x. \<not> is_option (snd x)) ?rest0 = []"
      using Nil by (simp only: dropWhile.simps snd_conv h not_False_eq_True if_True)
    then have "parse_loop call parser ?st0 ?rest0 = Ok (?st0, ?rest0)"
      by (subst parse_loop.simps) (simp only: list.case)
    with nex show ?thesis by simp
  next
    case (Cons x xs)
    have ex: "list_ex (\<lambda>x. is_option (snd x)) (zip rest pats)"
    proof (rule ccontr)
      assume "\<not> list_ex (\<lambda>x. is_option (snd x)) (zip rest pats)"
      then have "dropWhile (\<lambda>x. \<not> is_option (snd x)) (zip rest pats) = []"
        by (auto simp: list_ex_iff dropWhile_eq_Nil_conv)
      with Cons show False by simp
    qed
    obtain arg_string pt where x: "x = (arg_string, pt)" by (cases x)
    have d: "dropWhile (\<lambda>x. \<not> is_option (snd x)) ?rest0 = (arg_string, pt) # xs"
      using Cons x by (simp only: dropWhile.simps snd_conv h not_False_eq_True if_True)
    have t: "takeWhile (\<lambda>x. \<not> is_option (snd x)) ?rest0 \<noteq> []"
      by (simp add: h)
    have e: "parse_loop call parser (top_final ns) [] = Ok (top_final ns, [])" for ns
      by (simp add: parse_loop.simps [of call parser "top_final ns" "[]"])
    have "parse_loop call parser ?st0 ?rest0 =
        (case call [] (PyList (name # rest)) of
           Error e \<Rightarrow> Error e
         | HelpExit \<Rightarrow> HelpExit
         | Ok ns \<Rightarrow> Ok (top_final ns, []))"
      apply (subst parse_loop.simps)
      apply (simp only: d list.case prod.case Let_def t if_True cp)
      using len apply (simp add: e split: result.splits)
      done
    with ex show ?thesis by simp
  qed
  have cp2: "consume_positionals call parser (top_final ns) [] = Ok (top_final ns, 0)" for ns
    by (rule consume_positionals_none) (simp add: top_final_def)
  have fin': "(let st3 = (top_final ns)\<lparr>extras := extras (top_final ns) @ map fst (drop n r)\<rparr>;
           required_actions =
             filter (\<lambda>a. a \<notin> set (seen_actions st3) \<and> required a) (actions parser)
       in if required_actions \<noteq> [] then
            Error (RequiredArguments (map option_strings required_actions))
          else
            (case filter (\<lambda>g. group_required g \<and>
                      \<not> list_ex (\<lambda>a. a \<in> set (seen_non_default_actions st3))
                           (group_actions g))
                    (mutually_exclusive_groups parser) of
               g # _ \<Rightarrow> Error (OneOfRequired (map option_strings (group_actions g)))
             | [] \<Rightarrow> Ok st3)) =
      Ok ((top_final ns)\<lparr>extras := map fst (drop n r)\<rparr>)" for ns n and r :: "(string \<times> pat) list"
    by (simp add: parser_def top_final_def help_action_def subparsers_def)
  have eq: "parse_known_args_state call parser (name # rest) [] =
     (case parse_loop call parser ?st0 ?rest0 of
        Error e \<Rightarrow> Error e
      | HelpExit \<Rightarrow> HelpExit
      | Ok (st1, r) \<Rightarrow>
          (case consume_positionals call parser st1 r of
             Error e \<Rightarrow> Error e
           | HelpExit \<Rightarrow> HelpExit
           | Ok (st2, n) \<Rightarrow>
               (let st3 = st2\<lparr>extras := extras st2 @ map fst (drop n r)\<rparr>;
                    required_actions =
                      filter (\<lambda>a. a \<notin> set (seen_actions st3) \<and> required a) (actions parser)
                in if required_actions \<noteq> [] then
                     Error (RequiredArguments (map option_strings required_actions))
                   else
                     (case filter (\<lambda>g. group_required g \<and>
                               \<not> list_ex (\<lambda>a. a \<in> set (seen_non_default_actions st3))
                                    (group_actions g))
                             (mutually_exclusive_groups parser) of
                        g # _ \<Rightarrow> Error (OneOfRequired (map option_strings (group_actions g)))
                      | [] \<Rightarrow> Ok st3))))"
    unfolding parse_known_args_state_def pats top_positionals result.case zip_Cons_Cons
    by (simp only: Let_def)
  show ?thesis
  proof (cases "list_ex (\<lambda>x. is_option (snd x)) (zip rest pats)")
    case True
    show ?thesis
    proof (cases "call [] (PyList (name # rest))")
      case (Ok ns)
      with True loop have l: "parse_loop call parser ?st0 ?rest0 = Ok (top_final ns, [])"
        by simp
      show ?thesis
        unfolding eq l result.case prod.case cp2 fin' by (simp add: Ok top_final_def)
    qed (simp_all add: eq loop True)
  next
    case False
    with loop have l: "parse_loop call parser ?st0 ?rest0 = Ok (?st0, ?rest0)" by simp
    show ?thesis
    proof (cases "call [] (PyList (name # rest))")
      case (Ok ns)
      show ?thesis
        unfolding eq l result.case prod.case cp Ok fin' using len by (simp add: top_final_def)
    qed (simp_all add: eq l cp)
  qed
qed

lemma update_fresh: "k \<notin> fst ` set al \<Longrightarrow> AList.update k v al = al @ [(k, v)]"
  by (induction al) auto

lemma fold_setattr_distinct:
  "distinct (map fst (acc @ al)) \<Longrightarrow> fold (\<lambda>(k, v) n. setattr n k v) al acc = acc @ al"
proof (induction al arbitrary: acc)
  case Nil
  then show ?case by simp
next
  case (Cons x al)
  obtain k v where x: "x = (k, v)" by (cases x)
  from Cons.prems have "k \<notin> fst ` set acc" by (auto simp: x)
  then have "setattr acc k v = acc @ [(k, v)]" by (simp add: setattr_def update_fresh)
  moreover from Cons.prems have "distinct (map fst ((acc @ [(k, v)]) @ al))" by (simp add: x)
  ultimately show ?case using Cons.IH [of "acc @ [(k, v)]"] by (simp add: x)
qed

lemma top_add_defaults: "add_defaults parser [] = []"
  by code_simp

lemma parse_args_subcommand:
  assumes sp: "map_of name_parser_map name = Some sp" and sub: "sub_level sp"
    and i0: "inv sp (state0 sp)"
  shows "parse_args (subparsers_call name_parser_map) parser (name # rest) =
     (case parse_known_args_state no_subparsers sp rest (add_defaults sp []) of
        Error e \<Rightarrow> Error e
      | HelpExit \<Rightarrow> HelpExit
      | Ok st \<Rightarrow> if extras st \<noteq> [] then Error (UnrecognizedArguments (extras st))
                 else Ok (namespace st))"
proof -
  from sp have sc: "subcommand name"
    by (auto simp: name_parser_map_def subcommand_def split: if_splits)
  note top = top_parse_known_args_state [OF sc, of "subparsers_call name_parser_map" rest]
  show ?thesis
  proof (cases "parse_known_args_state no_subparsers sp rest (add_defaults sp [])")
    case (Ok st)
    from parse_known_args_state_inv [OF sub i0 [unfolded state0_def] Ok]
    have i: "inv sp st" by simp
    note un = invD(7) [OF i] and d = invD(8) [OF i]
    from d have f: "fold (\<lambda>(k, v) n. setattr n k v) (namespace st) [] = namespace st"
      using fold_setattr_distinct [of "[]" "namespace st"] by simp
    have call: "subparsers_call name_parser_map [] (PyList (name # rest)) =
        (if extras st \<noteq> [] then
           Ok (setattr (namespace st) UNRECOGNIZED_ARGS_ATTR (PyList (extras st)))
         else Ok (namespace st))"
      by (simp add: subparsers_call_def sp parse_known_args_sub [OF sub i0] Ok f un)
    show ?thesis
    proof (cases "extras st = []")
      case True
      with call top Ok un show ?thesis
        by (simp add: parse_args_def parse_known_args_def top_add_defaults top_final_def)
    next
      case False
      with call top Ok show ?thesis
        by (simp add: parse_args_def parse_known_args_def top_add_defaults top_final_def
              map_of_setattr)
    qed
  next
    case HelpExit
    with top show ?thesis
      by (simp add: parse_args_def parse_known_args_def top_add_defaults subparsers_call_def sp
            parse_known_args_sub [OF sub i0])
  next
    case (Error e)
    with top show ?thesis
      by (simp add: parse_args_def parse_known_args_def top_add_defaults subparsers_call_def sp
            parse_known_args_sub [OF sub i0])
  qed
qed

section \<open>Accepted command lines\<close>

lemma accepted_delete:
  assumes "parse_known_args_state call parser_delete rest (add_defaults parser_delete []) = Ok st"
  shows "(\<exists>v. map_of (namespace st) ''vbox_vm_identifier'' = Some (PyStr v)) \<and>
         (ident_name \<in> set (seen_non_default_actions st)) \<noteq>
           (ident_uuid \<in> set (seen_non_default_actions st))"
proof -
  let ?S = "set (seen_non_default_actions st)"
  from parse_known_args_state_inv [OF sub_level_parsers(2) inv0_delete [unfolded state0_def] assms]
  have i: "inv parser_delete st"
    and g: "\<forall>g \<in> set (mutually_exclusive_groups parser_delete). group_required g \<longrightarrow>
            (\<exists>a \<in> set (group_actions g). a \<in> ?S)"
    by simp_all
  from g have lab: "ident_name \<in> ?S \<or> ident_uuid \<in> ?S"
    by (simp add: parser_delete_def vm_delete_exclusive_args_def)
  note mx = invD(6) [OF i]
  have ne: "ident_name \<noteq> ident_uuid"
    by (simp add: ident_name_def ident_uuid_def)
  from mx ne have x2: "\<not> (ident_name \<in> ?S \<and> ident_uuid \<in> ?S)"
    by (auto simp: parser_delete_def vm_delete_exclusive_args_def)
  note nn = invD(5) [OF i] and vo = invD(4) [OF i]
  from vo obtain vi where
    vi: "map_of (namespace st) ''vbox_vm_identifier'' = Some vi"
        "value_ok parser_delete ''vbox_vm_identifier'' vi"
    by (auto simp: parser_delete_def ident_name_def help_action_def)
  from nn lab vi have "vi \<noteq> PyNone"
    by (auto simp: ident_name_def ident_uuid_def)
  with vi(2) have "is_str vi"
    by (auto simp: value_ok_def parser_delete_def ident_name_def ident_uuid_def help_action_def)
  then obtain v where "vi = PyStr v" by (cases vi) (auto simp: is_str_def)
  with vi lab x2 show ?thesis by auto
qed

lemma accepted_info:
  assumes "parse_known_args_state call parser_info rest (add_defaults parser_info []) = Ok st"
  shows "map_of (namespace st) ''vbox_vm_identifier'' = Some PyNone \<or>
         (\<exists>v. map_of (namespace st) ''vbox_vm_identifier'' = Some (PyStr v))"
proof -
  from parse_known_args_state_inv [OF sub_level_parsers(3) inv0_info [unfolded state0_def] assms]
  have i: "inv parser_info st" by simp
  note vo = invD(4) [OF i]
  from vo obtain vi where
    vi: "map_of (namespace st) ''vbox_vm_identifier'' = Some vi"
        "value_ok parser_info ''vbox_vm_identifier'' vi"
    by (auto simp: parser_info_def ident_name_def help_action_def)
  from vi(2) have "vi = PyNone \<or> is_str vi"
    by (auto simp: value_ok_def parser_info_def ident_name_def ident_uuid_def help_action_def)
  with vi(1) show ?thesis by (cases vi) (auto simp: is_str_def)
qed

lemma accepted_create:
  assumes "parse_known_args_state call parser_create rest (add_defaults parser_create []) = Ok st"
  shows "(\<exists>n. map_of (namespace st) ''vbox_vm_name'' = Some (PyStr n)) \<and>
         (\<exists>gv. map_of (namespace st) ''vbox_vm_groups'' = Some gv \<and> (gv = PyNone \<or> is_str gv)) \<and>
         (\<exists>ov. map_of (namespace st) ''vbox_vm_os'' = Some ov \<and> (ov = PyNone \<or> is_str ov)) \<and>
         create_name \<in> set (seen_non_default_actions st)"
proof -
  let ?S = "set (seen_non_default_actions st)"
  from parse_known_args_state_inv [OF sub_level_parsers(1) inv0_create [unfolded state0_def] assms]
  have i: "inv parser_create st"
    and r: "\<forall>a \<in> set (actions parser_create). required a \<longrightarrow> a \<in> ?S"
    by simp_all
  from r have seen: "create_name \<in> ?S"
    by (simp add: parser_create_def create_name_def)
  note nn = invD(5) [OF i] and vo = invD(4) [OF i]
  from vo obtain vn vg vs where
    vn: "map_of (namespace st) ''vbox_vm_name'' = Some vn"
        "value_ok parser_create ''vbox_vm_name'' vn"
    and vg: "map_of (namespace st) ''vbox_vm_groups'' = Some vg"
        "value_ok parser_create ''vbox_vm_groups'' vg"
    and vs: "map_of (namespace st) ''vbox_vm_os'' = Some vs"
        "value_ok parser_create ''vbox_vm_os'' vs"
    by (auto simp: parser_create_def create_name_def create_groups_def create_os_def
          help_action_def)
  from nn seen vn have "vn \<noteq> PyNone" by (auto simp: create_name_def)
  with vn(2) have "is_str vn"
    by (auto simp: value_ok_def parser_create_def create_name_def create_groups_def
          create_os_def help_action_def)
  then obtain n where n: "vn = PyStr n" by (cases vn) (auto simp: is_str_def)
  from vg(2) have g: "vg = PyNone \<or> is_str vg"
    by (auto simp: value_ok_def parser_create_def create_name_def create_groups_def
          create_os_def help_action_def)
  from vs(2) have s: "vs = PyNone \<or> is_str vs"
    by (auto simp: value_ok_def parser_create_def create_name_def create_groups_def
          create_os_def help_action_def)
  from vn n vg g vs s seen show ?thesis by auto
qed

section \<open>Command lines written with full option names\<close>

lemma parse_loop_Nil: "parse_loop call p st [] = Ok (st, [])"
  by (simp add: parse_loop.simps [of call p st "[]"])

lemma match_argument_kind:
  "kind a = Store \<Longrightarrow> match_argument a pats =
     (case pats of PA # _ \<Rightarrow> Ok 1 | _ \<Rightarrow> Error (ExpectedOneArgument (option_strings a)))"
  "kind a = StoreConst c \<Longrightarrow> match_argument a pats = Ok 0"
  by (simp_all add: match_argument_def nargs_of_def)

lemma consume_optional_store:
  assumes "kind a = Store"
  shows "consume_optional call p st f (Some a, f, None, None) ((v, c) # rest) =
     (if c = PA then
        (case take_action call p a [v] st of
           Error e \<Rightarrow> Error e
         | HelpExit \<Rightarrow> HelpExit
         | Ok st' \<Rightarrow> Ok (st', 1))
      else Error (ExpectedOneArgument (option_strings a)))"
  by (cases c)
     (simp_all add: consume_optional_def optional_tuples.simps [of p f _ _ "Some a"]
        match_argument_kind(1) [OF assms] split: result.splits)

lemma consume_optional_store_end:
  assumes "kind a = Store"
  shows "consume_optional call p st f (Some a, f, None, None) [] =
           Error (ExpectedOneArgument (option_strings a))"
  by (simp add: consume_optional_def optional_tuples.simps [of p f _ _ "Some a"]
        match_argument_kind(1) [OF assms])

lemma consume_optional_const:
  assumes "kind a = StoreConst k"
  shows "consume_optional call p st f (Some a, f, None, None) rest =
        (case take_action call p a [] st of
           Error e \<Rightarrow> Error e
         | HelpExit \<Rightarrow> HelpExit
         | Ok st' \<Rightarrow> Ok (st', 0))"
  by (simp add: consume_optional_def optional_tuples.simps [of p f _ _ "Some a"]
        match_argument_kind(2) [OF assms] split: result.splits)

lemma parse_loop_option:
  assumes "positionals st = []"
  shows "parse_loop call p st ((f, PO t) # rest) =
     (case consume_optional call p st f t rest of
        Error e \<Rightarrow> Error e
      | HelpExit \<Rightarrow> HelpExit
      | Ok (st', n) \<Rightarrow> parse_loop call p st' (drop n rest))"
proof -
  have h: "is_option (PO t)" by (simp add: is_option_def)
  show ?thesis
    by (subst parse_loop.simps) (simp add: h split: result.splits)
qed

lemma take_action_positionals:
  "take_action call p a args st = Ok st' \<Longrightarrow> kind a = Store \<or> (\<exists>c. kind a = StoreConst c) \<Longrightarrow>
   positionals st' = positionals st"
  by (drule take_action_Ok) auto

lemma opt_kind:
  "is_ident x \<Longrightarrow> kind (opt_action x) = Store"
  "\<not> is_ident x \<Longrightarrow> \<exists>c. kind (opt_action x) = StoreConst c"
  by (cases x; simp add: is_ident_def ident_name_def ident_uuid_def status_start_def
        status_stop_def)+

lemma known_status: "known parser_status x"
  by (cases x) (simp_all add: known_def, code_simp+)

lemma known_delete: "is_ident x \<Longrightarrow> known parser_delete x"
  by (cases x) (simp_all add: known_def is_ident_def, code_simp+)

lemma pattern_shape:
  assumes "list_all (known p) opts"
    and "arg_strings_pattern p (command_line opts) = Ok pats"
  shows "shape opts (zip (command_line opts) pats)"
  using assms
proof (induction opts arbitrary: pats)
  case Nil
  then show ?case by (simp add: command_line_def)
next
  case (Cons x xs)
  from Cons.prems(1) have kx: "known p x" and kxs: "list_all (known p) xs" by simp_all
  let ?f = "hd (render x)"
  have fd: "?f \<noteq> ''--''" by (cases x) simp_all
  show ?case
  proof (cases "is_ident x")
    case True
    then obtain v where r: "render x = [?f, v]" by (cases x) (simp_all add: is_ident_def)
    have cl: "command_line (x # xs) = ?f # v # command_line xs"
      using r by (simp add: command_line_def)
    from Cons.prems(2) kx fd obtain ps where
      ps: "arg_strings_pattern p (v # command_line xs) = Ok ps"
      and pats: "pats = PO (Some (opt_action x), ?f, None, None) # ps"
      by (auto simp: cl known_def split: result.splits)
    show ?thesis
    proof (cases "v = ''--''")
      case d: True
      with ps have "ps = PDash # map (\<lambda>_. PA) (command_line xs)" by simp
      with True show ?thesis by (simp add: cl pats)
    next
      case False
      with ps obtain ot ps' where
        ot: "parse_optional p v = Ok ot" and ps': "arg_strings_pattern p (command_line xs) = Ok ps'"
        and pse: "ps = (case ot of None \<Rightarrow> PA | Some t \<Rightarrow> PO t) # ps'"
        by (auto split: result.splits)
      from Cons.IH [OF kxs ps'] have "shape xs (zip (command_line xs) ps')" .
      with True show ?thesis by (simp add: cl pats pse)
    qed
  next
    case False
    then have r: "render x = [?f]" by (cases x) (simp_all add: is_ident_def)
    have cl: "command_line (x # xs) = ?f # command_line xs"
      using r by (simp add: command_line_def)
    from Cons.prems(2) kx fd obtain ps where
      ps: "arg_strings_pattern p (command_line xs) = Ok ps"
      and pats: "pats = PO (Some (opt_action x), ?f, None, None) # ps"
      by (auto simp: cl known_def split: result.splits)
    from Cons.IH [OF kxs ps] have "shape xs (zip (command_line xs) ps)" .
    with False show ?thesis by (simp add: cl pats)
  qed
qed

lemma take_action_not_help:
  "kind a = Store \<or> (\<exists>c. kind a = StoreConst c) \<Longrightarrow> take_action call p a args st \<noteq> HelpExit"
  by (auto simp: take_action_def get_values_def Let_def split: result.splits list.splits)

lemma loop_shape:
  assumes "shape opts rest" and "positionals st = []"
  shows "parse_loop call p st rest \<noteq> HelpExit \<and>
         (\<forall>st' r. parse_loop call p st rest = Ok (st', r) \<longrightarrow>
            r = [] \<and> positionals st' = [] \<and>
            set (seen_non_default_actions st') =
              set (seen_non_default_actions st) \<union> opt_action ` set opts)"
  using assms
proof (induction opts arbitrary: st rest)
  case Nil
  then show ?case by (simp add: parse_loop_Nil)
next
  case (Cons x xs)
  let ?a = "opt_action x"
  from Cons.prems(1) obtain f tail where
    rest: "rest = (f, PO (Some ?a, f, None, None)) # tail"
    by (auto split: list.splits)
  note lp = parse_loop_option [OF Cons.prems(2), of call p]
  show ?case
  proof (cases "is_ident x")
    case True
    note k = opt_kind(1) [OF True]
    from Cons.prems(1) True obtain v c rest' where
      tail: "tail = (v, c) # rest'" and sh: "c = PA \<longrightarrow> shape xs rest'"
      by (auto simp: rest split: list.splits)
    show ?thesis
    proof (cases "c = PA")
      case pa: True
      show ?thesis
      proof (cases "take_action call p ?a [v] st")
        case (Ok st1)
        from take_action_Ok [OF Ok] k have
          s1: "seen_non_default_actions st1 = ?a # seen_non_default_actions st"
          and p1: "positionals st1 = []"
          using Cons.prems(2) by auto
        from Ok pa have "parse_loop call p st rest = parse_loop call p st1 rest'"
          by (simp add: rest tail lp consume_optional_store [OF k])
        with Cons.IH [OF _ p1, of rest'] sh pa s1 show ?thesis by auto
      next
        case HelpExit
        with k take_action_not_help [of ?a call p "[v]" st] show ?thesis by simp
      next
        case (Error e)
        with pa show ?thesis by (simp add: rest tail lp consume_optional_store [OF k])
      qed
    next
      case False
      then show ?thesis by (simp add: rest tail lp consume_optional_store [OF k])
    qed
  next
    case False
    from opt_kind(2) [OF False] obtain k where k: "kind ?a = StoreConst k" by blast
    from Cons.prems(1) False have sh: "shape xs tail" by (simp add: rest)
    show ?thesis
    proof (cases "take_action call p ?a [] st")
      case (Ok st1)
      from take_action_Ok [OF Ok] k have
        s1: "seen_non_default_actions st1 = ?a # seen_non_default_actions st"
        and p1: "positionals st1 = []"
        using Cons.prems(2) by auto
      from Ok have "parse_loop call p st rest = parse_loop call p st1 tail"
        by (simp add: rest lp consume_optional_const [OF k])
      with Cons.IH [OF sh p1] s1 show ?thesis by auto
    next
      case HelpExit
      with k take_action_not_help [of ?a call p "[]" st] show ?thesis by simp
    next
      case (Error e)
      then show ?thesis by (simp add: rest lp consume_optional_const [OF k])
    qed
  qed
qed

lemma get_option_tuples_not_help: "get_option_tuples p s \<noteq> HelpExit"
  by (auto simp: get_option_tuples_def Let_def split: list.splits prod.splits)

lemma parse_optional_not_help: "parse_optional p s \<noteq> HelpExit"
  using get_option_tuples_not_help [of p s]
  by (auto simp: parse_optional_def Let_def split: option.splits prod.splits result.splits)

lemma arg_strings_pattern_not_help: "arg_strings_pattern p args \<noteq> HelpExit"
  using parse_optional_not_help
  by (induction args) (auto split: result.splits)

lemma state_of_command_line:
  assumes k: "list_all (known p) opts" and pos: "get_positional_actions p = []"
  shows "parse_known_args_state call p (command_line opts) ns \<noteq> HelpExit \<and>
         (\<forall>st. parse_known_args_state call p (command_line opts) ns = Ok st \<longrightarrow>
            set (seen_non_default_actions st) = opt_action ` set opts)"
proof (cases "arg_strings_pattern p (command_line opts)")
  case (Ok pats)
  let ?st0 = "\<lparr>namespace = ns, seen_actions = [], seen_non_default_actions = [],
               extras = [], positionals = []\<rparr>"
  let ?rest = "zip (command_line opts) pats"
  from pattern_shape [OF k Ok] have sh: "shape opts ?rest" .
  from loop_shape [OF sh, of ?st0 call p]
  have nh: "parse_loop call p ?st0 ?rest \<noteq> HelpExit"
    and ok: "\<And>st' r. parse_loop call p ?st0 ?rest = Ok (st', r) \<Longrightarrow>
            r = [] \<and> positionals st' = [] \<and>
            set (seen_non_default_actions st') = opt_action ` set opts"
    by auto
  show ?thesis
  proof (cases "parse_loop call p ?st0 ?rest")
    case (Ok x)
    obtain st1 r where x: "x = (st1, r)" by (cases x)
    from ok [OF Ok [unfolded x]] have r: "r = []" and p1: "positionals st1 = []"
      and s1: "set (seen_non_default_actions st1) = opt_action ` set opts" by simp_all
    from \<open>arg_strings_pattern p (command_line opts) = Ok pats\<close> Ok x r s1
    show ?thesis
      by (auto simp: parse_known_args_state_def pos consume_positionals_none [OF p1] Let_def
            split: list.splits)
  next
    case HelpExit
    with nh show ?thesis by simp
  next
    case (Error e)
    with \<open>arg_strings_pattern p (command_line opts) = Ok pats\<close> show ?thesis
      by (simp add: parse_known_args_state_def pos)
  qed
next
  case HelpExit
  with arg_strings_pattern_not_help show ?thesis by blast
next
  case (Error e)
  then show ?thesis by (simp add: parse_known_args_state_def)
qed

lemma opt_action_ident:
  "ident_name \<in> opt_action ` set opts \<longleftrightarrow> list_ex by_name opts"
  "ident_uuid \<in> opt_action ` set opts \<longleftrightarrow> list_ex by_uuid opts"
proof -
  have a: "opt_action x = ident_name \<longleftrightarrow> by_name x" for x
    by (cases x) (simp_all add: by_name_def ident_name_def ident_uuid_def status_start_def
          status_stop_def)
  have b: "opt_action x = ident_uuid \<longleftrightarrow> by_uuid x" for x
    by (cases x) (simp_all add: by_uuid_def ident_name_def ident_uuid_def status_start_def
          status_stop_def)
  show "ident_name \<in> opt_action ` set opts \<longleftrightarrow> list_ex by_name opts"
    using a by (auto simp: list_ex_iff image_iff) metis+
  show "ident_uuid \<in> opt_action ` set opts \<longleftrightarrow> list_ex by_uuid opts"
    using b by (auto simp: list_ex_iff image_iff) metis+
qed

lemma parse_args_delete:
  "parse_args (subparsers_call name_parser_map) parser (''delete'' # rest) =
     (case parse_known_args_state no_subparsers parser_delete rest (add_defaults parser_delete []) of
        Error e \<Rightarrow> Error e
      | HelpExit \<Rightarrow> HelpExit
      | Ok st \<Rightarrow> if extras st \<noteq> [] then Error (UnrecognizedArguments (extras st))
                 else Ok (namespace st))"
  by (rule parse_args_subcommand)
     (simp_all add: name_parser_map_def sub_level_parsers inv0_delete)

lemma parse_args_status:
  "parse_args (subparsers_call name_parser_map) parser (''status'' # rest) =
     (case parse_known_args_state no_subparsers parser_status rest (add_defaults parser_status []) of
        Error e \<Rightarrow> Error e
      | HelpExit \<Rightarrow> HelpExit
      | Ok st \<Rightarrow> if extras st \<noteq> [] then Error (UnrecognizedArguments (extras st))
                 else Ok (namespace st))"
  by (rule parse_args_subcommand)
     (simp_all add: name_parser_map_def sub_level_parsers inv0_status)

lemma parse_args_info:
  "parse_args (subparsers_call name_parser_map) parser (''info'' # rest) =
     (case parse_known_args_state no_subparsers parser_info rest (add_defaults parser_info []) of
        Error e \<Rightarrow> Error e
      | HelpExit \<Rightarrow> HelpExit
      | Ok st \<Rightarrow> if extras st \<noteq> [] then Error (UnrecognizedArguments (extras st))
                 else Ok (namespace st))"
  by (rule parse_args_subcommand)
     (simp_all add: name_parser_map_def sub_level_parsers inv0_info)

lemma parse_args_create:
  "parse_args (subparsers_call name_parser_map) parser (''create'' # rest) =
     (case parse_known_args_state no_subparsers parser_create rest (add_defaults parser_create []) of
        Error e \<Rightarrow> Error e
      | HelpExit \<Rightarrow> HelpExit
      | Ok st \<Rightarrow> if extras st \<noteq> [] then Error (UnrecognizedArguments (extras st))
                 else Ok (namespace st))"
  by (rule parse_args_subcommand)
     (simp_all add: name_parser_map_def sub_level_parsers inv0_create)

lemma delete_refused:
  assumes "list_all is_ident opts" and "list_ex by_name opts = list_ex by_uuid opts"
  shows "\<exists>e. parse_args (subparsers_call name_parser_map) parser
               (''delete'' # command_line opts) = Error e"
proof -
  let ?r = "parse_known_args_state no_subparsers parser_delete (command_line opts)
              (add_defaults parser_delete [])"
  from assms(1) have k: "list_all (known parser_delete) opts"
    by (auto simp: list_all_iff intro: known_delete)
  note s = state_of_command_line [OF k positional_parsers(2), of no_subparsers
      "add_defaults parser_delete []"]
  show ?thesis
  proof (cases ?r)
    case (Ok st)
    with s have "set (seen_non_default_actions st) = opt_action ` set opts" by simp
    with accepted_delete [OF Ok] assms(2) show ?thesis by (simp add: opt_action_ident)
  next
    case HelpExit
    with s show ?thesis by simp
  next
    case (Error e)
    then show ?thesis by (simp add: parse_args_delete)
  qed
qed

lemma status_refused:
  assumes "list_ex by_name opts = list_ex by_uuid opts"
  shows "\<exists>e. parse_args (subparsers_call name_parser_map) parser
               (''status'' # command_line opts) = Error e"
proof -
  let ?r = "parse_known_args_state no_subparsers parser_status (command_line opts)
              (add_defaults parser_status [])"
  have k: "list_all (known parser_status) opts"
    by (auto simp: list_all_iff intro: known_status)
  note s = state_of_command_line [OF k positional_parsers(4), of no_subparsers
      "add_defaults parser_status []"]
  show ?thesis
  proof (cases ?r)
    case (Ok st)
    with s have "set (seen_non_default_actions st) = opt_action ` set opts" by simp
    with accepted_status [OF Ok] assms show ?thesis by (simp add: opt_action_ident)
  next
    case HelpExit
    with s show ?thesis by simp
  next
    case (Error e)
    then show ?thesis by (simp add: parse_args_status)
  qed
qed

lemma run_program_usage_error:
  assumes "parse_args (subparsers_call name_parser_map) parser args = Error e"
  shows "run_program os (prog # args) = (2, world0\<lparr>stderr := [UsageText e]\<rparr>)"
  using assms by (simp add: run_program_def main_def)

lemma parse_optional_plain:
  "\<not> startswith v ''-'' \<Longrightarrow> parse_optional p v = Ok None \<and> v \<noteq> ''--''"
  by (cases v) (auto simp: parse_optional_def startswith_def)

lemma flag_tuples:
  "parse_optional parser_delete ''--name'' = Ok (Some (Some ident_name, ''--name'', None, None))"
  "parse_optional parser_delete ''--uuid'' = Ok (Some (Some ident_uuid, ''--uuid'', None, None))"
  "parse_optional parser_info ''--name'' = Ok (Some (Some ident_name, ''--name'', None, None))"
  "parse_optional parser_info ''--uuid'' = Ok (Some (Some ident_uuid, ''--uuid'', None, None))"
  "parse_optional parser_status ''--name'' = Ok (Some (Some ident_name, ''--name'', None, None))"
  "parse_optional parser_status ''--uuid'' = Ok (Some (Some ident_uuid, ''--uuid'', None, None))"
  "parse_optional parser_status ''--start'' = Ok (Some (Some status_start, ''--start'', None, None))"
  "parse_optional parser_status ''--stop'' = Ok (Some (Some status_stop, ''--stop'', None, None))"
  by code_simp+

lemma ident_kind: "kind ident_name = Store" "kind ident_uuid = Store"
  "kind status_start = StoreConst ''start''" "kind status_stop = StoreConst ''stop''"
  by (simp_all add: ident_name_def ident_uuid_def status_start_def status_stop_def)

lemma canonical_delete:
  assumes "\<not> startswith v ''-''" and "a = ident_name \<and> f = ''--name'' \<or> a = ident_uuid \<and> f = ''--uuid''"
  shows "parse_args (subparsers_call name_parser_map) parser [''delete'', f, v] =
           Ok [(''vbox_vm_identifier'', PyStr v)]"
proof -
  note pv = parse_optional_plain [OF assms(1), of parser_delete]
  from assms(2) have k: "kind a = Store" by (auto simp: ident_kind)
  from assms(2) have pat: "arg_strings_pattern parser_delete [f, v] = Ok [PO (Some a, f, None, None), PA]"
    using pv by (auto simp: flag_tuples)
  have ta: "take_action no_subparsers parser_delete a [v]
      \<lparr>namespace = [(''vbox_vm_identifier'', PyNone)], seen_actions = [],
       seen_non_default_actions = [], extras = [], positionals = []\<rparr> =
     Ok \<lparr>namespace = [(''vbox_vm_identifier'', PyStr v)], seen_actions = [a],
       seen_non_default_actions = [a], extras = [], positionals = []\<rparr>"
    using assms(2)
    by (auto simp: take_action_def get_values_def action_conflicts_def parser_delete_def
          vm_delete_exclusive_args_def ident_name_def ident_uuid_def setattr_def)
  show ?thesis
    unfolding parse_args_delete parse_known_args_state_def pat add_defaults_parsers
      positional_parsers
    using assms(2)
    by (simp add: parse_loop_option consume_optional_store [OF k] ta parse_loop_Nil
          consume_positionals_none)
       (auto simp: parser_delete_def vm_delete_exclusive_args_def ident_name_def ident_uuid_def
          help_action_def)
qed

section \<open>What the operations spawn\<close>

lemma canonical_info:
  assumes "\<not> startswith v ''-''" and "a = ident_name \<and> f = ''--name'' \<or> a = ident_uuid \<and> f = ''--uuid''"
  shows "parse_args (subparsers_call name_parser_map) parser [''info'', f, v] =
           Ok [(''vbox_vm_identifier'', PyStr v)]"
proof -
  note pv = parse_optional_plain [OF assms(1), of parser_info]
  from assms(2) have k: "kind a = Store" by (auto simp: ident_kind)
  from assms(2) have pat: "arg_strings_pattern parser_info [f, v] = Ok [PO (Some a, f, None, None), PA]"
    using pv by (auto simp: flag_tuples)
  have ta: "take_action no_subparsers parser_info a [v]
      \<lparr>namespace = [(''vbox_vm_identifier'', PyNone)], seen_actions = [],
       seen_non_default_actions = [], extras = [], positionals = []\<rparr> =
     Ok \<lparr>namespace = [(''vbox_vm_identifier'', PyStr v)], seen_actions = [a],
       seen_non_default_actions = [a], extras = [], positionals = []\<rparr>"
    using assms(2)
    by (auto simp: take_action_def get_values_def action_conflicts_def parser_info_def
          vm_info_exclusive_args_def ident_name_def ident_uuid_def setattr_def)
  show ?thesis
    unfolding parse_args_info parse_known_args_state_def pat add_defaults_parsers
      positional_parsers
    using assms(2)
    by (simp add: parse_loop_option consume_optional_store [OF k] ta parse_loop_Nil
          consume_positionals_none)
       (auto simp: parser_info_def vm_info_exclusive_args_def ident_name_def ident_uuid_def
          help_action_def)
qed

lemma canonical_status:
  assumes "\<not> startswith v ''-''"
    and "a = ident_name \<and> f = ''--name'' \<or> a = ident_uuid \<and> f = ''--uuid''"
    and "b = status_start \<and> g = ''--start'' \<and> c = ''start'' \<or>
         b = status_stop \<and> g = ''--stop'' \<and> c = ''stop''"
  shows "parse_args (subparsers_call name_parser_map) parser [''status'', g, f, v] =
           Ok [(''vbox_vm_action'', PyStr c), (''vbox_vm_identifier'', PyStr v)]"
proof -
  note pv = parse_optional_plain [OF assms(1), of parser_status]
  from assms(2) have k: "kind a = Store" by (auto simp: ident_kind)
  from assms(3) have kb: "kind b = StoreConst c" by (auto simp: ident_kind)
  from assms(2,3) have pat: "arg_strings_pattern parser_status [g, f, v] =
      Ok [PO (Some b, g, None, None), PO (Some a, f, None, None), PA]"
    using pv by (auto simp: flag_tuples)
  have tb: "take_action no_subparsers parser_status b []
      \<lparr>namespace = [(''vbox_vm_action'', PyNone), (''vbox_vm_identifier'', PyNone)],
       seen_actions = [], seen_non_default_actions = [], extras = [], positionals = []\<rparr> =
     Ok \<lparr>namespace = [(''vbox_vm_action'', PyStr c), (''vbox_vm_identifier'', PyNone)],
       seen_actions = [b], seen_non_default_actions = [b], extras = [], positionals = []\<rparr>"
    using assms(3)
    by (auto simp: take_action_def get_values_def action_conflicts_def parser_status_def
          vm_status_exclusive_args_ops_def vm_status_exclusive_args_label_def
          ident_name_def ident_uuid_def status_start_def status_stop_def setattr_def)
  have ta: "take_action no_subparsers parser_status a [v]
      \<lparr>namespace = [(''vbox_vm_action'', PyStr c), (''vbox_vm_identifier'', PyNone)],
       seen_actions = [b], seen_non_default_actions = [b], extras = [], positionals = []\<rparr> =
     Ok \<lparr>namespace = [(''vbox_vm_action'', PyStr c), (''vbox_vm_identifier'', PyStr v)],
       seen_actions = [a, b], seen_non_default_actions = [a, b], extras = [],
       positionals = []\<rparr>"
    using assms(2,3)
    by (auto simp: take_action_def get_values_def action_conflicts_def parser_status_def
          vm_status_exclusive_args_ops_def vm_status_exclusive_args_label_def
          ident_name_def ident_uuid_def status_start_def status_stop_def setattr_def)
  show ?thesis
    unfolding parse_args_status parse_known_args_state_def pat add_defaults_parsers
      positional_parsers
    using assms(2,3)
    by (simp add: parse_loop_option consume_optional_store [OF k] consume_optional_const [OF kb]
          ta tb parse_loop_Nil consume_positionals_none)
       (auto simp: parser_status_def vm_status_exclusive_args_ops_def
          vm_status_exclusive_args_label_def ident_name_def ident_uuid_def
          status_start_def status_stop_def help_action_def)
qed

lemma subprocess_run_strs:
  "spawned (snd (subprocess_run os (map PyStr xs) w)) = spawned w @ [xs]"
proof -
  have "list_all is_str (map PyStr xs)" by (simp add: list_all_iff is_str_def)
  moreover have "map the_str (map PyStr xs) = xs" by (simp add: the_str_def comp_def)
  ultimately show ?thesis by (simp add: subprocess_run_spawned)
qed

lemma opt_delete_spawned:
  "map_of args ''vbox_vm_identifier'' = Some (PyStr ident) \<Longrightarrow>
   spawned (snd (opt_delete os args w)) =
     spawned w @ [[''vboxmanage'', ''unregistervm'', ''--delete'', ident]]"
  using subprocess_run_strs [of os "[''vboxmanage'', ''unregistervm'', ''--delete'', ident]" w]
  by (simp add: opt_delete_def getattr_def)

lemma opt_info_spawned:
  "map_of args ''vbox_vm_identifier'' = Some (PyStr ident) \<Longrightarrow>
   spawned (snd (opt_info os args w)) =
     spawned w @ [[''vboxmanage'', ''showvminfo'', ''--details'', ident]]"
  "map_of args ''vbox_vm_identifier'' = Some PyNone \<Longrightarrow>
   spawned (snd (opt_info os args w)) = spawned w @ [[''vboxmanage'', ''list'', ''vms'']]"
  using subprocess_run_strs [of os "[''vboxmanage'', ''showvminfo'', ''--details'', ident]" w]
    subprocess_run_strs [of os "[''vboxmanage'', ''list'', ''vms'']" w]
  by (simp_all add: opt_info_def getattr_def)

lemma opt_status_spawned:
  "map_of args ''vbox_vm_action'' = Some (PyStr ''start'') \<Longrightarrow>
   map_of args ''vbox_vm_identifier'' = Some (PyStr ident) \<Longrightarrow>
   spawned (snd (opt_status os args w)) =
     spawned w @ [[''vboxmanage'', ''startvm'', ident, ''--type'', ''headless'']]"
  "map_of args ''vbox_vm_action'' = Some (PyStr ''stop'') \<Longrightarrow>
   map_of args ''vbox_vm_identifier'' = Some (PyStr ident) \<Longrightarrow>
   spawned (snd (opt_status os args w)) =
     spawned w @ [[''vboxmanage'', ''controlvm'', ident, ''poweroff'']]"
  using subprocess_run_strs [of os "[''vboxmanage'', ''startvm'', ident, ''--type'', ''headless'']" w]
    subprocess_run_strs [of os "[''vboxmanage'', ''controlvm'', ident, ''poweroff'']" w]
  by (simp_all add: opt_status_def getattr_def)

lemma subprocess_run_stdout: "stdout (snd (subprocess_run os args w)) = stdout w"
  by (simp add: subprocess_run_def Let_def split: completed.splits)

lemma opt_status_stdout:
  assumes "map_of args ''vbox_vm_action'' = Some (PyStr ''start'') \<or>
           map_of args ''vbox_vm_action'' = Some (PyStr ''stop'')"
  shows "stdout (snd (opt_status os args w)) = stdout w"
proof (cases "map_of args ''vbox_vm_identifier''")
  case None
  with assms show ?thesis by (auto simp: opt_status_def getattr_def)
next
  case (Some v)
  with assms show ?thesis by (auto simp: opt_status_def getattr_def subprocess_run_stdout)
qed

lemma main_dispatch:
  assumes "parse_args (subparsers_call name_parser_map) parser (cmd # rest) = Ok args"
  shows "main os (prog # cmd # rest) =
     (if cmd = ''create'' then opt_create os args world0
      else if cmd = ''delete'' then opt_delete os args world0
      else if cmd = ''info'' then opt_info os args world0
      else if cmd = ''status'' then opt_status os args world0
      else (None, world0\<lparr>stdout := [Line todo_message]\<rparr>))"
  using assms by (simp add: main_def)

section \<open>The exception of an operation and the return code\<close>

lemma subprocess_run_reports: "reports os (subprocess_run os args world0)"
  by (auto simp: reports_def subprocess_run_def world0_def Let_def split: completed.splits)

lemma error_reports:
  "e \<noteq> None \<Longrightarrow> (\<forall>rc. e \<noteq> Some (CalledProcessError rc)) \<Longrightarrow> (\<forall>n. e \<noteq> Some (SystemExit n)) \<Longrightarrow>
   reports os (e, world0)"
  by (auto simp: reports_def world0_def split: option.splits exn.splits)

lemma getattr_cases:
  "(\<exists>v. getattr ns a = Inr v) \<or> getattr ns a = Inl (AttributeError a)"
  by (simp add: getattr_def split: option.splits)

lemma opt_delete_reports: "reports os (opt_delete os args world0)"
  using getattr_cases [of args "''vbox_vm_identifier''"]
  by (auto simp: opt_delete_def subprocess_run_reports error_reports)

lemma opt_info_reports: "reports os (opt_info os args world0)"
  using getattr_cases [of args "''vbox_vm_identifier''"]
  by (auto simp: opt_info_def subprocess_run_reports error_reports)

lemma opt_status_reports: "reports os (opt_status os args world0)"
proof -
  have t: "reports os (None, world0\<lparr>stdout := stdout world0 @ [Line todo_message]\<rparr>)"
    by (simp add: reports_def world0_def)
  show ?thesis
    using getattr_cases [of args "''vbox_vm_identifier''"]
      getattr_cases [of args "''vbox_vm_action''"]
    by (auto simp: opt_status_def subprocess_run_reports error_reports t)
qed

lemma create_cmd_str_error:
  "create_cmd_str args = Inl e \<Longrightarrow> e = TypeError \<or> (\<exists>a. e = AttributeError a)"
  by (auto simp: create_cmd_str_def getattr_def str_add_def
        split: option.splits sum.splits pyval.splits if_splits)

lemma opt_create_reports: "reports os (opt_create os args world0)"
proof (cases "create_cmd_str args")
  case (Inl e)
  with create_cmd_str_error [OF Inl] show ?thesis
    by (auto simp: opt_create_def error_reports)
next
  case (Inr s)
  then show ?thesis by (simp add: opt_create_def subprocess_run_reports)
qed

lemma main_reports:
  assumes "parse_args (subparsers_call name_parser_map) parser (drop 1 sys_argv) = Ok args"
  shows "reports os (main os sys_argv)"
proof -
  have t: "reports os (None, world0\<lparr>stdout := [Line todo_message]\<rparr>)"
    by (simp add: reports_def world0_def)
  have i: "reports os (Some IndexError, world0)"
    by (simp add: error_reports)
  show ?thesis
    using assms
    by (simp add: main_def opt_create_reports opt_delete_reports opt_info_reports
          opt_status_reports t i)
qed

text \<open>Exactly one form chosen, read on the state of an accepted run.\<close>

lemma forms_one:
  assumes "parse_known_args_state no_subparsers p rest (add_defaults p []) = Ok st"
    and "(ident_name \<in> set (seen_non_default_actions st)) \<noteq>
         (ident_uuid \<in> set (seen_non_default_actions st))"
  shows "forms p rest = [ident_name] \<or> forms p rest = [ident_uuid]"
  using assms by (auto simp: forms_def)

section \<open>\<^verbatim>\<open>opt_create\<close> on values without whitespace\<close>

lemma create_words_tokens:
  assumes "token n" and "case gv of PyStr s \<Rightarrow> token s | _ \<Rightarrow> True"
    and "case ov of PyStr s \<Rightarrow> token s | _ \<Rightarrow> True"
  shows "create_words n gv ov = create_argv n gv ov"
  using assms
  by (cases gv; cases ov) (simp_all add: create_words_def create_argv_def str_split_token)

lemma accepted_create_args:
  assumes "parse_args (subparsers_call name_parser_map) parser (''create'' # rest) = Ok args"
  shows "\<exists>n gv ov. map_of args ''vbox_vm_name'' = Some (PyStr n) \<and>
           map_of args ''vbox_vm_groups'' = Some gv \<and> (gv = PyNone \<or> is_str gv) \<and>
           map_of args ''vbox_vm_os'' = Some ov \<and> (ov = PyNone \<or> is_str ov)"
proof -
  from assms obtain st where
    st: "parse_known_args_state no_subparsers parser_create rest (add_defaults parser_create [])
           = Ok st" and a: "args = namespace st"
    by (auto simp: parse_args_create split: result.splits if_splits)
  from accepted_create [OF st] show ?thesis by (auto simp: a)
qed

text \<open>
  Where the name and the groups and os-type values of an accepted create command
  line are not empty and hold no whitespace, splitting the joined string gives the
  values back: exactly one process is requested, with the list vboxmanage, createvm,
  --register, --name, the name, and then --groups and the groups value if groups is
  supplied, otherwise --ostype and the os-type value if os-type is supplied,
  otherwise nothing. When none of the values is itself the string --groups or
  --ostype, --groups occurs in the list if and only if groups is supplied, and
  --ostype if and only if os-type is supplied and groups is not.
\<close>

theorem create_forwards_groups_or_ostype:
  assumes "parse_args (subparsers_call name_parser_map) parser (''create'' # rest) = Ok args"
    and "tokens_only args"
  shows "\<exists>n gv ov.
           map_of args ''vbox_vm_name'' = Some (PyStr n) \<and>
           map_of args ''vbox_vm_groups'' = Some gv \<and>
           map_of args ''vbox_vm_os'' = Some ov \<and>
           spawned (snd (main os (prog # ''create'' # rest))) = [create_argv n gv ov] \<and>
           (\<forall>g. gv = PyStr g \<longrightarrow> followed_by ''--groups'' g (create_argv n gv ov)) \<and>
           (\<forall>t. gv = PyNone \<and> ov = PyStr t \<longrightarrow> followed_by ''--ostype'' t (create_argv n gv ov)) \<and>
           (no_flag_values args \<longrightarrow>
              (''--groups'' \<in> set (create_argv n gv ov) \<longleftrightarrow> gv \<noteq> PyNone) \<and>
              (''--ostype'' \<in> set (create_argv n gv ov) \<longleftrightarrow> ov \<noteq> PyNone \<and> gv = PyNone))"
proof -
  from accepted_create_args [OF assms(1)] obtain n gv ov where
    n: "map_of args ''vbox_vm_name'' = Some (PyStr n)"
    and g: "map_of args ''vbox_vm_groups'' = Some gv" "gv = PyNone \<or> is_str gv"
    and t: "map_of args ''vbox_vm_os'' = Some ov" "ov = PyNone \<or> is_str ov"
    by blast
  from n g(1) t(1) have mem: "(''vbox_vm_name'', PyStr n) \<in> set args"
    "(''vbox_vm_groups'', gv) \<in> set args" "(''vbox_vm_os'', ov) \<in> set args"
    by (auto dest: map_of_SomeD)
  with assms(2) have tok: "token n" "case gv of PyStr s \<Rightarrow> token s | _ \<Rightarrow> True"
    "case ov of PyStr s \<Rightarrow> token s | _ \<Rightarrow> True"
    by (auto simp: tokens_only_def)
  have sp: "spawned (snd (main os (prog # ''create'' # rest))) = [create_argv n gv ov]"
    using opt_create_spawned [OF n g t, of os world0] create_words_tokens [OF tok]
    by (simp add: main_dispatch [OF assms(1)] world0_def)
  have f1: "\<forall>g. gv = PyStr g \<longrightarrow> followed_by ''--groups'' g (create_argv n gv ov)"
    by (simp add: create_argv_def)
  have f2: "\<forall>t. gv = PyNone \<and> ov = PyStr t \<longrightarrow> followed_by ''--ostype'' t (create_argv n gv ov)"
    by (simp add: create_argv_def)
  have f3: "no_flag_values args \<longrightarrow>
              (''--groups'' \<in> set (create_argv n gv ov) \<longleftrightarrow> gv \<noteq> PyNone) \<and>
              (''--ostype'' \<in> set (create_argv n gv ov) \<longleftrightarrow> ov \<noteq> PyNone \<and> gv = PyNone)"
  proof
    assume "no_flag_values args"
    with mem have nf: "n \<noteq> ''--groups''" "n \<noteq> ''--ostype''" "gv \<noteq> PyStr ''--ostype''"
      "ov \<noteq> PyStr ''--groups''"
      by (auto simp: no_flag_values_def)
    with g(2) t(2) show "(''--groups'' \<in> set (create_argv n gv ov) \<longleftrightarrow> gv \<noteq> PyNone) \<and>
              (''--ostype'' \<in> set (create_argv n gv ov) \<longleftrightarrow> ov \<noteq> PyNone \<and> gv = PyNone)"
      by (cases gv; cases ov) (auto simp: create_argv_def is_str_def)
  qed
  from n g(1) t(1) sp f1 f2 f3 show ?thesis by blast
qed

theorem create_forwards_groups_or_ostype_witness:
  "parse_args (subparsers_call name_parser_map) parser
     [''create'', ''--name'', ''vm1'', ''--groups'', ''/lab'', ''--operating-system'',
      ''Debian_64''] =
     Ok [(''vbox_vm_name'', PyStr ''vm1''), (''vbox_vm_groups'', PyStr ''/lab''),
         (''vbox_vm_os'', PyStr ''Debian_64'')] \<and>
   tokens_only [(''vbox_vm_name'', PyStr ''vm1''), (''vbox_vm_groups'', PyStr ''/lab''),
         (''vbox_vm_os'', PyStr ''Debian_64'')] \<and>
   spawned (snd (main (\<lambda>_. Exited 0)
      [''vbox_cli.py'', ''create'', ''--name'', ''vm1'', ''--groups'', ''/lab'',
       ''--operating-system'', ''Debian_64''])) =
     [[''vboxmanage'', ''createvm'', ''--register'', ''--name'', ''vm1'', ''--groups'', ''/lab'']]"
proof -
  let ?rest = "[''--name'', ''vm1'', ''--groups'', ''/lab'', ''--operating-system'', ''Debian_64'']"
  let ?args = "[(''vbox_vm_name'', PyStr ''vm1''), (''vbox_vm_groups'', PyStr ''/lab''),
             (''vbox_vm_os'', PyStr ''Debian_64'')]"
  have p: "parse_args (subparsers_call name_parser_map) parser (''create'' # ?rest) = Ok ?args"
    by code_simp
  have t: "tokens_only ?args"
    by (simp add: tokens_only_def token_def isspace_def)
  from create_forwards_groups_or_ostype [OF p t, of "\<lambda>_. Exited 0" "''vbox_cli.py''"]
  obtain n gv ov where
    a: "map_of ?args ''vbox_vm_name'' = Some (PyStr n)"
       "map_of ?args ''vbox_vm_groups'' = Some gv" "map_of ?args ''vbox_vm_os'' = Some ov"
    and sp: "spawned (snd (main (\<lambda>_. Exited 0) (''vbox_cli.py'' # ''create'' # ?rest))) =
               [create_argv n gv ov]"
    by blast
  from a have "n = ''vm1''" "gv = PyStr ''/lab''" "ov = PyStr ''Debian_64''" by simp_all
  with sp have "spawned (snd (main (\<lambda>_. Exited 0) (''vbox_cli.py'' # ''create'' # ?rest))) =
     [[''vboxmanage'', ''createvm'', ''--register'', ''--name'', ''vm1'', ''--groups'', ''/lab'']]"
    by (simp add: create_argv_def)
  with p t show ?thesis by simp
qed

section \<open>The properties of the specification\<close>

text \<open>
  C1, at the failing input \<^verbatim>\<open>create --name vm1 --groups 'a b'\<close>. The command line is
  accepted with the groups value \<^verbatim>\<open>a b\<close>; \<^verbatim>\<open>opt_create\<close> joins the values into one string
  and splits it at whitespace, so the list it hands over ends with --groups, a, b:
  --groups is there, but it is not followed by the groups value, which is not an
  element of the list at all. (\<^verbatim>\<open>opt_delete\<close>, \<^verbatim>\<open>opt_info\<close> and \<^verbatim>\<open>opt_status\<close> hand such a
  value over as one element.)
\<close>

theorem create_splits_groups_value:
  "parse_args (subparsers_call name_parser_map) parser
     [''create'', ''--name'', ''vm1'', ''--groups'', ''a b''] =
     Ok [(''vbox_vm_name'', PyStr ''vm1''), (''vbox_vm_groups'', PyStr ''a b''),
         (''vbox_vm_os'', PyNone)] \<and>
   spawned (snd (main (\<lambda>_. Exited 0)
     [''vbox_cli.py'', ''create'', ''--name'', ''vm1'', ''--groups'', ''a b''])) =
     [[''vboxmanage'', ''createvm'', ''--register'', ''--name'', ''vm1'', ''--groups'', ''a'', ''b'']] \<and>
   \<not> followed_by ''--groups'' ''a b''
     [''vboxmanage'', ''createvm'', ''--register'', ''--name'', ''vm1'', ''--groups'', ''a'', ''b''] \<and>
   ''a b'' \<notin> set
     [''vboxmanage'', ''createvm'', ''--register'', ''--name'', ''vm1'', ''--groups'', ''a'', ''b''] \<and>
   spawned (snd (main (\<lambda>_. Exited 0) [''vbox_cli.py'', ''delete'', ''--name'', ''a b''])) =
     [[''vboxmanage'', ''unregistervm'', ''--delete'', ''a b'']]"
  by code_simp

text \<open>
  C9, as amended. \<^verbatim>\<open>opt_create\<close> joins the values into one string and splits it at
  whitespace: for every create namespace the list it hands over is vboxmanage,
  createvm, --register, --name, then the words of the name, then --groups and the
  words of the groups value if groups is supplied, otherwise --ostype and the words
  of the os-type value if os-type is supplied. A value is forwarded as its
  whitespace-separated words (none, one or several), every element is non-empty and
  without whitespace, so a value that holds whitespace is never an element of the
  list. \<^verbatim>\<open>opt_delete\<close>, \<^verbatim>\<open>opt_info\<close> and \<^verbatim>\<open>opt_status\<close> forward the identifier as
  one element, whatever it holds.
\<close>

theorem create_splits_values_others_do_not:
  "(map_of args ''vbox_vm_name'' = Some (PyStr n) \<longrightarrow>
    map_of args ''vbox_vm_groups'' = Some gv \<longrightarrow> gv = PyNone \<or> is_str gv \<longrightarrow>
    map_of args ''vbox_vm_os'' = Some ov \<longrightarrow> ov = PyNone \<or> is_str ov \<longrightarrow>
      spawned (snd (opt_create os args w)) = spawned w @ [create_words n gv ov] \<and>
      (\<forall>x \<in> set (create_words n gv ov). x \<noteq> [] \<and> \<not> list_ex isspace x) \<and>
      (\<forall>v. list_ex isspace v \<longrightarrow> v \<notin> set (create_words n gv ov))) \<and>
   (map_of args ''vbox_vm_identifier'' = Some (PyStr ident) \<longrightarrow>
      spawned (snd (opt_delete os args w)) =
        spawned w @ [[''vboxmanage'', ''unregistervm'', ''--delete'', ident]] \<and>
      spawned (snd (opt_info os args w)) =
        spawned w @ [[''vboxmanage'', ''showvminfo'', ''--details'', ident]] \<and>
      (map_of args ''vbox_vm_action'' = Some (PyStr ''start'') \<longrightarrow>
         spawned (snd (opt_status os args w)) =
           spawned w @ [[''vboxmanage'', ''startvm'', ident, ''--type'', ''headless'']]) \<and>
      (map_of args ''vbox_vm_action'' = Some (PyStr ''stop'') \<longrightarrow>
         spawned (snd (opt_status os args w)) =
           spawned w @ [[''vboxmanage'', ''controlvm'', ident, ''poweroff'']]))"
proof -
  have words: "x \<noteq> [] \<and> \<not> list_ex isspace x" if "x \<in> set (create_words n gv ov)" for x
  proof -
    have fixed: "y \<in> {''vboxmanage'', ''createvm'', ''--register'', ''--name'', ''--groups'',
        ''--ostype''} \<Longrightarrow> y \<noteq> [] \<and> \<not> list_ex isspace y" for y
      by (auto simp: isspace_def)
    from that have "x \<in> {''vboxmanage'', ''createvm'', ''--register'', ''--name'', ''--groups'',
        ''--ostype''} \<or> (\<exists>s. x \<in> set (str_split s))"
      by (auto simp: create_words_def split: pyval.splits)
    then show ?thesis
    proof
      assume "x \<in> {''vboxmanage'', ''createvm'', ''--register'', ''--name'', ''--groups'',
        ''--ostype''}"
      then show ?thesis by (rule fixed)
    next
      assume "\<exists>s. x \<in> set (str_split s)"
      then obtain s where "x \<in> set (str_split s)" ..
      then show ?thesis by (rule str_split_words)
    qed
  qed
  have w1: "\<forall>x \<in> set (create_words n gv ov). x \<noteq> [] \<and> \<not> list_ex isspace x"
  proof
    fix x
    assume "x \<in> set (create_words n gv ov)"
    then show "x \<noteq> [] \<and> \<not> list_ex isspace x" by (rule words)
  qed
  have w2: "\<forall>v. list_ex isspace v \<longrightarrow> v \<notin> set (create_words n gv ov)"
  proof (intro allI impI notI)
    fix v
    assume "list_ex isspace v" and "v \<in> set (create_words n gv ov)"
    with words [of v] show False by simp
  qed
  have create: "spawned (snd (opt_create os args w)) = spawned w @ [create_words n gv ov]"
    if "map_of args ''vbox_vm_name'' = Some (PyStr n)"
      and "map_of args ''vbox_vm_groups'' = Some gv" and "gv = PyNone \<or> is_str gv"
      and "map_of args ''vbox_vm_os'' = Some ov" and "ov = PyNone \<or> is_str ov"
    using that by (rule opt_create_spawned)
  have others: "spawned (snd (opt_delete os args w)) =
        spawned w @ [[''vboxmanage'', ''unregistervm'', ''--delete'', ident]] \<and>
      spawned (snd (opt_info os args w)) =
        spawned w @ [[''vboxmanage'', ''showvminfo'', ''--details'', ident]] \<and>
      (map_of args ''vbox_vm_action'' = Some (PyStr ''start'') \<longrightarrow>
         spawned (snd (opt_status os args w)) =
           spawned w @ [[''vboxmanage'', ''startvm'', ident, ''--type'', ''headless'']]) \<and>
      (map_of args ''vbox_vm_action'' = Some (PyStr ''stop'') \<longrightarrow>
         spawned (snd (opt_status os args w)) =
           spawned w @ [[''vboxmanage'', ''controlvm'', ident, ''poweroff'']])"
    if i: "map_of args ''vbox_vm_identifier'' = Some (PyStr ident)"
    using opt_delete_spawned [OF i, of os w] opt_info_spawned(1) [OF i, of os w]
      opt_status_spawned(1) [OF _ i, of os w] opt_status_spawned(2) [OF _ i, of os w]
    by blast
  from w1 w2 create others show ?thesis by blast
qed

theorem create_splits_values_others_do_not_witness:
  "spawned (snd (opt_create (\<lambda>_. Exited 0)
      [(''vbox_vm_name'', PyStr ''my vm''), (''vbox_vm_groups'', PyNone),
       (''vbox_vm_os'', PyStr ''Debian 64'')] world0)) =
     [[''vboxmanage'', ''createvm'', ''--register'', ''--name'', ''my'', ''vm'', ''--ostype'',
       ''Debian'', ''64'']] \<and>
   ''my vm'' \<notin> set (create_words ''my vm'' PyNone (PyStr ''Debian 64'')) \<and>
   spawned (snd (opt_delete (\<lambda>_. Exited 0) [(''vbox_vm_identifier'', PyStr ''my vm'')] world0)) =
     [[''vboxmanage'', ''unregistervm'', ''--delete'', ''my vm'']]"
proof -
  let ?args = "[(''vbox_vm_name'', PyStr ''my vm''), (''vbox_vm_groups'', PyNone),
       (''vbox_vm_os'', PyStr ''Debian 64'')]"
  have w: "create_words ''my vm'' PyNone (PyStr ''Debian 64'') =
      [''vboxmanage'', ''createvm'', ''--register'', ''--name'', ''my'', ''vm'', ''--ostype'',
       ''Debian'', ''64'']"
    by code_simp
  have s: "list_ex isspace ''my vm''" by code_simp
  from create_splits_values_others_do_not
    [where args = ?args and n = "''my vm''" and gv = PyNone and ov = "PyStr ''Debian 64''"
       and os = "\<lambda>_. Exited 0" and w = world0]
  have 1: "spawned (snd (opt_create (\<lambda>_. Exited 0) ?args world0)) =
      spawned world0 @ [create_words ''my vm'' PyNone (PyStr ''Debian 64'')]"
    and 2: "\<forall>v. list_ex isspace v \<longrightarrow> v \<notin> set (create_words ''my vm'' PyNone (PyStr ''Debian 64''))"
    by (simp_all add: is_str_def)
  from create_splits_values_others_do_not
    [where args = "[(''vbox_vm_identifier'', PyStr ''my vm'')]" and ident = "''my vm''"
       and os = "\<lambda>_. Exited 0" and w = world0]
  have 3: "spawned (snd (opt_delete (\<lambda>_. Exited 0) [(''vbox_vm_identifier'', PyStr ''my vm'')]
      world0)) = spawned world0 @ [[''vboxmanage'', ''unregistervm'', ''--delete'', ''my vm'']]"
    by simp
  from 1 2 3 s show ?thesis by (simp add: w world0_def)
qed

theorem create_trailing_space_counterexample:
  "list_ex isspace ''vm1 '' \<and>
   parse_args (subparsers_call name_parser_map) parser [''create'', ''--name'', ''vm1 ''] =
     Ok [(''vbox_vm_name'', PyStr ''vm1 ''), (''vbox_vm_groups'', PyNone),
         (''vbox_vm_os'', PyNone)] \<and>
   spawned (snd (main (\<lambda>_. Exited 0) [''vbox_cli.py'', ''create'', ''--name'', ''vm1 ''])) =
     [[''vboxmanage'', ''createvm'', ''--register'', ''--name'', ''vm1'']] \<and>
   str_split ''vm1 '' = [''vm1'']"
  by code_simp

text \<open>
  C2, as amended. When the external process runs and ends with status 0 the
  program ends with status 0; when it runs and ends with any other status, the
  \<^verbatim>\<open>CalledProcessError\<close> of \<^verbatim>\<open>check=True\<close> is not caught and the program ends with
  status 1, whatever the external status was; when the program cannot be started
  the status is 1 as well. When the arguments are refused by the parser the
  program ends with the fixed status 2, the usage message is on the standard error
  stream and no process was requested.
\<close>

theorem exit_status_of_program:
  "(\<forall>args. parse_args (subparsers_call name_parser_map) parser (drop 1 sys_argv) = Ok args \<longrightarrow>
      (\<forall>cmd. spawned (snd (run_program os sys_argv)) = [cmd] \<longrightarrow>
         exit_status os sys_argv =
           (case os cmd of NotStarted \<Rightarrow> 1 | Exited rc \<Rightarrow> if rc = 0 then 0 else 1))) \<and>
   (\<forall>e. parse_args (subparsers_call name_parser_map) parser (drop 1 sys_argv) = Error e \<longrightarrow>
      run_program os sys_argv = (2, world0\<lparr>stderr := [UsageText e]\<rparr>) \<and>
      exit_status os sys_argv = 2 \<and> spawned (snd (run_program os sys_argv)) = [])"
proof (intro conjI allI impI)
  fix args cmd
  assume p: "parse_args (subparsers_call name_parser_map) parser (drop 1 sys_argv) = Ok args"
    and s: "spawned (snd (run_program os sys_argv)) = [cmd]"
  obtain e w where m: "main os sys_argv = (e, w)" by (cases "main os sys_argv")
  have sw: "spawned (snd (run_program os sys_argv)) = spawned w"
    by (simp add: run_program_def m split: option.splits exn.splits)
  from main_reports [OF p, of os] m s sw
  have e: "e = (case os cmd of NotStarted \<Rightarrow> Some FileNotFoundError
                | Exited rc \<Rightarrow> if rc = 0 then None else Some (CalledProcessError rc))"
    by (simp add: reports_def)
  show "exit_status os sys_argv =
           (case os cmd of NotStarted \<Rightarrow> 1 | Exited rc \<Rightarrow> if rc = 0 then 0 else 1)"
    by (simp add: exit_status_def run_program_def m e split: completed.splits)
next
  fix e
  assume p: "parse_args (subparsers_call name_parser_map) parser (drop 1 sys_argv) = Error e"
  then show r: "run_program os sys_argv = (2, world0\<lparr>stderr := [UsageText e]\<rparr>)"
    by (simp add: run_program_def main_def)
  then show "exit_status os sys_argv = 2" by (simp add: exit_status_def)
  from r show "spawned (snd (run_program os sys_argv)) = []" by (simp add: world0_def)
qed

theorem exit_status_of_program_witness:
  "spawned (snd (run_program (\<lambda>_. Exited 7) [''vbox_cli.py'', ''info''])) =
     [[''vboxmanage'', ''list'', ''vms'']] \<and>
   exit_status (\<lambda>_. Exited 7) [''vbox_cli.py'', ''info''] = 1 \<and>
   exit_status (\<lambda>_. Exited 0) [''vbox_cli.py'', ''info''] = 0 \<and>
   run_program (\<lambda>_. Exited 0) [''vbox_cli.py'', ''delete''] =
     (2, world0\<lparr>stderr := [UsageText (OneOfRequired [[''--name''], [''--uuid'']])]\<rparr>)"
proof -
  have p: "parse_args (subparsers_call name_parser_map) parser (drop 1 [''vbox_cli.py'', ''info''])
      = Ok [(''vbox_vm_identifier'', PyNone)]"
    by code_simp
  have s: "spawned (snd (run_program (\<lambda>_. Exited rc) [''vbox_cli.py'', ''info''])) =
     [[''vboxmanage'', ''list'', ''vms'']]" for rc
    by (cases "rc = 0") (simp_all add: run_program_def main_def p [simplified] opt_info_def
          getattr_def subprocess_run_def is_str_def the_str_def world0_def)
  have q: "parse_args (subparsers_call name_parser_map) parser (drop 1 [''vbox_cli.py'', ''delete''])
      = Error (OneOfRequired [[''--name''], [''--uuid'']])"
    by code_simp
  from exit_status_of_program [of "[''vbox_cli.py'', ''info'']" "\<lambda>_. Exited 7"] p s [of 7]
  have 1: "exit_status (\<lambda>_. Exited 7) [''vbox_cli.py'', ''info''] = 1" by simp
  from exit_status_of_program [of "[''vbox_cli.py'', ''info'']" "\<lambda>_. Exited 0"] p s [of 0]
  have 2: "exit_status (\<lambda>_. Exited 0) [''vbox_cli.py'', ''info''] = 0" by simp
  from exit_status_of_program [of "[''vbox_cli.py'', ''delete'']" "\<lambda>_. Exited 0"] q
  have 3: "run_program (\<lambda>_. Exited 0) [''vbox_cli.py'', ''delete''] =
     (2, world0\<lparr>stderr := [UsageText (OneOfRequired [[''--name''], [''--uuid'']])]\<rparr>)"
    by simp
  from 1 2 3 s [of 7] show ?thesis by simp
qed

theorem exit_status_not_forwarded_counterexample:
  "run_program (\<lambda>_. Exited 2) [''vbox_cli.py'', ''info''] =
     (1, \<lparr>spawned = [[''vboxmanage'', ''list'', ''vms'']], stdout = [],
          stderr = [Traceback (CalledProcessError 2)]\<rparr>) \<and>
   exit_status (\<lambda>_. Exited 2) [''vbox_cli.py'', ''info''] = 1 \<and>
   exit_status (\<lambda>_. Exited 2) [''vbox_cli.py'', ''info''] \<noteq> 2"
  by code_simp

text \<open>
  C3, at the failing input. Called with no argument at all, the parser accepts the
  empty command line (the sub-command is optional), and \<^verbatim>\<open>main\<close> then reads
  \<^verbatim>\<open>sys.argv[1]\<close>: an \<^verbatim>\<open>IndexError\<close> that nobody catches. The program ends with a
  traceback and status 1, not with the usage message and status 2.
\<close>

theorem no_subcommand_raises_index_error:
  "parse_args (subparsers_call name_parser_map) parser [] = Ok [] \<and>
   main os [''vbox_cli.py''] = (Some IndexError, world0) \<and>
   run_program os [''vbox_cli.py''] = (1, world0\<lparr>stderr := [Traceback IndexError]\<rparr>)"
  by code_simp

text \<open>
  C4. A delete or status command line written with the options of its sub-command
  (\<^verbatim>\<open>--name\<close> and \<^verbatim>\<open>--uuid\<close> with any values; for status also \<^verbatim>\<open>--start\<close> and
  \<^verbatim>\<open>--stop\<close>), in any number and order, which gives neither \<^verbatim>\<open>--name\<close> nor
  \<^verbatim>\<open>--uuid\<close>, or gives both, is refused by the parser: the program writes the usage
  message to the standard error stream, ends with status 2 and requests no process.
\<close>

theorem neither_or_both_identifiers_refused:
  assumes "list_ex by_name opts = list_ex by_uuid opts"
  shows "(list_all is_ident opts \<longrightarrow>
            (\<exists>e. parse_args (subparsers_call name_parser_map) parser
                    (''delete'' # command_line opts) = Error e \<and>
                  run_program os (prog # ''delete'' # command_line opts) =
                    (2, world0\<lparr>stderr := [UsageText e]\<rparr>) \<and>
                  spawned (snd (run_program os (prog # ''delete'' # command_line opts))) = [])) \<and>
         (\<exists>e. parse_args (subparsers_call name_parser_map) parser
                 (''status'' # command_line opts) = Error e \<and>
               run_program os (prog # ''status'' # command_line opts) =
                 (2, world0\<lparr>stderr := [UsageText e]\<rparr>) \<and>
               spawned (snd (run_program os (prog # ''status'' # command_line opts))) = [])"
proof -
  have r: "\<exists>e. parse_args (subparsers_call name_parser_map) parser args = Error e \<and>
             run_program os (prog # args) = (2, world0\<lparr>stderr := [UsageText e]\<rparr>) \<and>
             spawned (snd (run_program os (prog # args))) = []"
    if "\<exists>e. parse_args (subparsers_call name_parser_map) parser args = Error e" for args
  proof -
    from that obtain e where e: "parse_args (subparsers_call name_parser_map) parser args = Error e" ..
    from run_program_usage_error [OF e, of os prog] e show ?thesis by (simp add: world0_def)
  qed
  have d: "list_all is_ident opts \<longrightarrow>
      (\<exists>e. parse_args (subparsers_call name_parser_map) parser (''delete'' # command_line opts)
         = Error e)"
    using delete_refused [OF _ assms] by blast
  have s: "\<exists>e. parse_args (subparsers_call name_parser_map) parser (''status'' # command_line opts)
         = Error e"
    using status_refused [OF assms] .
  from d r [of "''delete'' # command_line opts"] r [OF s] show ?thesis by blast
qed

theorem neither_or_both_identifiers_refused_witness:
  "run_program (\<lambda>_. Exited 0) [''vbox_cli.py'', ''delete'', ''--name'', ''a'', ''--uuid'', ''b''] =
     (2, world0\<lparr>stderr := [UsageText (NotAllowedWith [''--uuid''] [''--name''])]\<rparr>) \<and>
   run_program (\<lambda>_. Exited 0) [''vbox_cli.py'', ''status'', ''--start''] =
     (2, world0\<lparr>stderr := [UsageText (OneOfRequired [[''--name''], [''--uuid'']])]\<rparr>)"
proof -
  let ?both = "[OptName ''a'', OptUuid ''b'']"
  let ?none = "[OptStart]"
  have h1: "list_ex by_name ?both = list_ex by_uuid ?both" "list_all is_ident ?both"
    by (simp_all add: by_name_def by_uuid_def is_ident_def)
  have h2: "list_ex by_name ?none = list_ex by_uuid ?none"
    by (simp add: by_name_def by_uuid_def)
  have c: "command_line ?both = [''--name'', ''a'', ''--uuid'', ''b'']"
    "command_line ?none = [''--start'']"
    by (simp_all add: command_line_def)
  have p1: "parse_args (subparsers_call name_parser_map) parser
      [''delete'', ''--name'', ''a'', ''--uuid'', ''b''] =
      Error (NotAllowedWith [''--uuid''] [''--name''])"
    by code_simp
  have p2: "parse_args (subparsers_call name_parser_map) parser [''status'', ''--start''] =
      Error (OneOfRequired [[''--name''], [''--uuid'']])"
    by code_simp
  from neither_or_both_identifiers_refused [OF h1(1), of "\<lambda>_. Exited 0" "''vbox_cli.py''"] h1(2)
  have 1: "run_program (\<lambda>_. Exited 0)
      [''vbox_cli.py'', ''delete'', ''--name'', ''a'', ''--uuid'', ''b''] =
     (2, world0\<lparr>stderr := [UsageText (NotAllowedWith [''--uuid''] [''--name''])]\<rparr>)"
    by (auto simp: c p1)
  from neither_or_both_identifiers_refused [OF h2, of "\<lambda>_. Exited 0" "''vbox_cli.py''"]
  have 2: "run_program (\<lambda>_. Exited 0) [''vbox_cli.py'', ''status'', ''--start''] =
     (2, world0\<lparr>stderr := [UsageText (OneOfRequired [[''--name''], [''--uuid'']])]\<rparr>)"
    by (auto simp: c p2)
  from 1 2 show ?thesis by simp
qed

text \<open>
  C5. For every accepted status command line the namespace holds a string as the
  identifier, and the action start or stop; with start exactly one process is
  requested, with the list vboxmanage, startvm, the identifier, --type, headless;
  with stop exactly one, with the list vboxmanage, controlvm, the identifier,
  poweroff. For the command lines \<^verbatim>\<open>status --start|--stop --name|--uuid v\<close>, with
  a value that does not start with a dash, the identifier is the value \<open>v\<close>.
\<close>

theorem status_spawns_startvm_or_controlvm:
  "(parse_args (subparsers_call name_parser_map) parser (''status'' # rest) = Ok args \<longrightarrow>
      (\<exists>ident. map_of args ''vbox_vm_identifier'' = Some (PyStr ident) \<and>
         (map_of args ''vbox_vm_action'' = Some (PyStr ''start'') \<and>
          spawned (snd (main os (prog # ''status'' # rest))) =
            [[''vboxmanage'', ''startvm'', ident, ''--type'', ''headless'']] \<or>
          map_of args ''vbox_vm_action'' = Some (PyStr ''stop'') \<and>
          spawned (snd (main os (prog # ''status'' # rest))) =
            [[''vboxmanage'', ''controlvm'', ident, ''poweroff'']]))) \<and>
   (\<not> startswith v ''-'' \<longrightarrow> f = ''--name'' \<or> f = ''--uuid'' \<longrightarrow>
      spawned (snd (main os [prog, ''status'', ''--start'', f, v])) =
        [[''vboxmanage'', ''startvm'', v, ''--type'', ''headless'']] \<and>
      spawned (snd (main os [prog, ''status'', ''--stop'', f, v])) =
        [[''vboxmanage'', ''controlvm'', v, ''poweroff'']])"
proof (intro conjI impI)
  assume p: "parse_args (subparsers_call name_parser_map) parser (''status'' # rest) = Ok args"
  then obtain st where
    st: "parse_known_args_state no_subparsers parser_status rest (add_defaults parser_status [])
           = Ok st" and a: "args = namespace st"
    by (auto simp: parse_args_status split: result.splits if_splits)
  from accepted_status [OF st] obtain ident where
    i: "map_of args ''vbox_vm_identifier'' = Some (PyStr ident)"
    and act: "map_of args ''vbox_vm_action'' = Some (PyStr ''start'') \<or>
              map_of args ''vbox_vm_action'' = Some (PyStr ''stop'')"
    by (auto simp: a)
  have m: "main os (prog # ''status'' # rest) = opt_status os args world0"
    by (simp add: main_dispatch [OF p])
  from act opt_status_spawned(1) [OF _ i, of os world0] opt_status_spawned(2) [OF _ i, of os world0]
  have "map_of args ''vbox_vm_action'' = Some (PyStr ''start'') \<and>
          spawned (snd (main os (prog # ''status'' # rest))) =
            [[''vboxmanage'', ''startvm'', ident, ''--type'', ''headless'']] \<or>
        map_of args ''vbox_vm_action'' = Some (PyStr ''stop'') \<and>
          spawned (snd (main os (prog # ''status'' # rest))) =
            [[''vboxmanage'', ''controlvm'', ident, ''poweroff'']]"
    by (auto simp: m world0_def)
  with i show "\<exists>ident. map_of args ''vbox_vm_identifier'' = Some (PyStr ident) \<and>
         (map_of args ''vbox_vm_action'' = Some (PyStr ''start'') \<and>
          spawned (snd (main os (prog # ''status'' # rest))) =
            [[''vboxmanage'', ''startvm'', ident, ''--type'', ''headless'']] \<or>
          map_of args ''vbox_vm_action'' = Some (PyStr ''stop'') \<and>
          spawned (snd (main os (prog # ''status'' # rest))) =
            [[''vboxmanage'', ''controlvm'', ident, ''poweroff'']])"
    by blast
next
  assume v: "\<not> startswith v ''-''" and f: "f = ''--name'' \<or> f = ''--uuid''"
  obtain a where a: "a = ident_name \<and> f = ''--name'' \<or> a = ident_uuid \<and> f = ''--uuid''"
    using f by blast
  have p1: "parse_args (subparsers_call name_parser_map) parser [''status'', ''--start'', f, v] =
      Ok [(''vbox_vm_action'', PyStr ''start''), (''vbox_vm_identifier'', PyStr v)]"
    by (rule canonical_status [OF v a]) simp
  have p2: "parse_args (subparsers_call name_parser_map) parser [''status'', ''--stop'', f, v] =
      Ok [(''vbox_vm_action'', PyStr ''stop''), (''vbox_vm_identifier'', PyStr v)]"
    by (rule canonical_status [OF v a]) simp
  show "spawned (snd (main os [prog, ''status'', ''--start'', f, v])) =
        [[''vboxmanage'', ''startvm'', v, ''--type'', ''headless'']]"
    using opt_status_spawned(1) [of "[(''vbox_vm_action'', PyStr ''start''),
      (''vbox_vm_identifier'', PyStr v)]" v os world0]
    by (simp add: main_dispatch [OF p1] world0_def)
  show "spawned (snd (main os [prog, ''status'', ''--stop'', f, v])) =
        [[''vboxmanage'', ''controlvm'', v, ''poweroff'']]"
    using opt_status_spawned(2) [of "[(''vbox_vm_action'', PyStr ''stop''),
      (''vbox_vm_identifier'', PyStr v)]" v os world0]
    by (simp add: main_dispatch [OF p2] world0_def)
qed

theorem status_spawns_startvm_or_controlvm_witness:
  "spawned (snd (main (\<lambda>_. Exited 0) [''vbox_cli.py'', ''status'', ''--start'', ''--name'', ''vm1''])) =
     [[''vboxmanage'', ''startvm'', ''vm1'', ''--type'', ''headless'']] \<and>
   spawned (snd (main (\<lambda>_. Exited 0) [''vbox_cli.py'', ''status'', ''--stop'', ''--uuid'', ''abc-123''])) =
     [[''vboxmanage'', ''controlvm'', ''abc-123'', ''poweroff'']] \<and>
   parse_args (subparsers_call name_parser_map) parser [''status'', ''--uuid=x'', ''--sto''] =
     Ok [(''vbox_vm_action'', PyStr ''stop''), (''vbox_vm_identifier'', PyStr ''x'')] \<and>
   spawned (snd (main (\<lambda>_. Exited 0) [''vbox_cli.py'', ''status'', ''--uuid=x'', ''--sto''])) =
     [[''vboxmanage'', ''controlvm'', ''x'', ''poweroff'']]"
proof -
  have s: "\<not> startswith ''vm1'' ''-''" "\<not> startswith ''abc-123'' ''-''"
    by (simp_all add: startswith_def)
  have p: "parse_args (subparsers_call name_parser_map) parser [''status'', ''--uuid=x'', ''--sto''] =
     Ok [(''vbox_vm_action'', PyStr ''stop''), (''vbox_vm_identifier'', PyStr ''x'')]"
    by code_simp
  from status_spawns_startvm_or_controlvm
    [where v = "''vm1''" and f = "''--name''" and os = "\<lambda>_. Exited 0" and prog = "''vbox_cli.py''"] s
  have 1: "spawned (snd (main (\<lambda>_. Exited 0)
      [''vbox_cli.py'', ''status'', ''--start'', ''--name'', ''vm1''])) =
     [[''vboxmanage'', ''startvm'', ''vm1'', ''--type'', ''headless'']]"
    by simp
  from status_spawns_startvm_or_controlvm
    [where v = "''abc-123''" and f = "''--uuid''" and os = "\<lambda>_. Exited 0" and prog = "''vbox_cli.py''"] s
  have 2: "spawned (snd (main (\<lambda>_. Exited 0)
      [''vbox_cli.py'', ''status'', ''--stop'', ''--uuid'', ''abc-123''])) =
     [[''vboxmanage'', ''controlvm'', ''abc-123'', ''poweroff'']]"
    by simp
  from status_spawns_startvm_or_controlvm
    [where rest = "[''--uuid=x'', ''--sto'']" and os = "\<lambda>_. Exited 0" and prog = "''vbox_cli.py''"
       and args = "[(''vbox_vm_action'', PyStr ''stop''), (''vbox_vm_identifier'', PyStr ''x'')]"] p
  have 3: "spawned (snd (main (\<lambda>_. Exited 0) [''vbox_cli.py'', ''status'', ''--uuid=x'', ''--sto''])) =
     [[''vboxmanage'', ''controlvm'', ''x'', ''poweroff'']]"
    by simp
  from 1 2 3 p show ?thesis by simp
qed

text \<open>
  C6. For every accepted info command line the identifier of the namespace is
  either None, and then exactly one process is requested, with the list
  vboxmanage, list, vms; or a string, and then exactly one, with the list
  vboxmanage, showvminfo, --details, the identifier. The command line \<^verbatim>\<open>info\<close>
  alone is the first case; \<^verbatim>\<open>info --name|--uuid v\<close>, with a value that does not
  start with a dash, is the second with the identifier \<open>v\<close>.
\<close>

theorem info_spawns_list_or_showvminfo:
  "(parse_args (subparsers_call name_parser_map) parser (''info'' # rest) = Ok args \<longrightarrow>
      map_of args ''vbox_vm_identifier'' = Some PyNone \<and>
        spawned (snd (main os (prog # ''info'' # rest))) = [[''vboxmanage'', ''list'', ''vms'']] \<or>
      (\<exists>ident. map_of args ''vbox_vm_identifier'' = Some (PyStr ident) \<and>
        spawned (snd (main os (prog # ''info'' # rest))) =
          [[''vboxmanage'', ''showvminfo'', ''--details'', ident]])) \<and>
   spawned (snd (main os [prog, ''info''])) = [[''vboxmanage'', ''list'', ''vms'']] \<and>
   (\<not> startswith v ''-'' \<longrightarrow> f = ''--name'' \<or> f = ''--uuid'' \<longrightarrow>
      spawned (snd (main os [prog, ''info'', f, v])) =
        [[''vboxmanage'', ''showvminfo'', ''--details'', v]])"
proof (intro conjI impI)
  assume p: "parse_args (subparsers_call name_parser_map) parser (''info'' # rest) = Ok args"
  then obtain st where
    st: "parse_known_args_state no_subparsers parser_info rest (add_defaults parser_info [])
           = Ok st" and a: "args = namespace st"
    by (auto simp: parse_args_info split: result.splits if_splits)
  have m: "main os (prog # ''info'' # rest) = opt_info os args world0"
    by (simp add: main_dispatch [OF p])
  from accepted_info [OF st]
  have "map_of args ''vbox_vm_identifier'' = Some PyNone \<or>
        (\<exists>v. map_of args ''vbox_vm_identifier'' = Some (PyStr v))"
    by (simp add: a)
  then show "map_of args ''vbox_vm_identifier'' = Some PyNone \<and>
        spawned (snd (main os (prog # ''info'' # rest))) = [[''vboxmanage'', ''list'', ''vms'']] \<or>
      (\<exists>ident. map_of args ''vbox_vm_identifier'' = Some (PyStr ident) \<and>
        spawned (snd (main os (prog # ''info'' # rest))) =
          [[''vboxmanage'', ''showvminfo'', ''--details'', ident]])"
  proof
    assume n: "map_of args ''vbox_vm_identifier'' = Some PyNone"
    from opt_info_spawned(2) [OF n, of os world0] n show ?thesis
      by (simp add: m world0_def)
  next
    assume "\<exists>v. map_of args ''vbox_vm_identifier'' = Some (PyStr v)"
    then obtain ident where i: "map_of args ''vbox_vm_identifier'' = Some (PyStr ident)" ..
    from opt_info_spawned(1) [OF i, of os world0] i show ?thesis
      by (simp add: m world0_def)
  qed
next
  have p: "parse_args (subparsers_call name_parser_map) parser [''info''] =
      Ok [(''vbox_vm_identifier'', PyNone)]"
    by code_simp
  show "spawned (snd (main os [prog, ''info''])) = [[''vboxmanage'', ''list'', ''vms'']]"
    using opt_info_spawned(2) [of "[(''vbox_vm_identifier'', PyNone)]" os world0]
    by (simp add: main_dispatch [OF p] world0_def)
next
  assume v: "\<not> startswith v ''-''" and f: "f = ''--name'' \<or> f = ''--uuid''"
  obtain a where a: "a = ident_name \<and> f = ''--name'' \<or> a = ident_uuid \<and> f = ''--uuid''"
    using f by blast
  note p = canonical_info [OF v a]
  show "spawned (snd (main os [prog, ''info'', f, v])) =
        [[''vboxmanage'', ''showvminfo'', ''--details'', v]]"
    using opt_info_spawned(1) [of "[(''vbox_vm_identifier'', PyStr v)]" v os world0]
    by (simp add: main_dispatch [OF p] world0_def)
qed

theorem info_spawns_list_or_showvminfo_witness:
  "spawned (snd (main (\<lambda>_. Exited 0) [''vbox_cli.py'', ''info'', ''--name'', ''foo''])) =
     [[''vboxmanage'', ''showvminfo'', ''--details'', ''foo'']] \<and>
   parse_args (subparsers_call name_parser_map) parser [''info'', ''--uuid=abc-123''] =
     Ok [(''vbox_vm_identifier'', PyStr ''abc-123'')] \<and>
   spawned (snd (main (\<lambda>_. Exited 0) [''vbox_cli.py'', ''info'', ''--uuid=abc-123''])) =
     [[''vboxmanage'', ''showvminfo'', ''--details'', ''abc-123'']]"
proof -
  have s: "\<not> startswith ''foo'' ''-''" by (simp add: startswith_def)
  have p: "parse_args (subparsers_call name_parser_map) parser [''info'', ''--uuid=abc-123''] =
     Ok [(''vbox_vm_identifier'', PyStr ''abc-123'')]"
    by code_simp
  from info_spawns_list_or_showvminfo
    [where v = "''foo''" and f = "''--name''" and os = "\<lambda>_. Exited 0" and prog = "''vbox_cli.py''"] s
  have 1: "spawned (snd (main (\<lambda>_. Exited 0) [''vbox_cli.py'', ''info'', ''--name'', ''foo''])) =
     [[''vboxmanage'', ''showvminfo'', ''--details'', ''foo'']]"
    by simp
  from info_spawns_list_or_showvminfo
    [where rest = "[''--uuid=abc-123'']" and os = "\<lambda>_. Exited 0" and prog = "''vbox_cli.py''"
       and args = "[(''vbox_vm_identifier'', PyStr ''abc-123'')]"] p
  have 2: "spawned (snd (main (\<lambda>_. Exited 0) [''vbox_cli.py'', ''info'', ''--uuid=abc-123''])) =
     [[''vboxmanage'', ''showvminfo'', ''--details'', ''abc-123'']]"
    by simp
  from 1 2 p show ?thesis by simp
qed

text \<open>
  C7. For every accepted delete command line the identifier of the namespace is a
  string, exactly one of \<^verbatim>\<open>--name\<close> and \<^verbatim>\<open>--uuid\<close> has been given, and exactly one
  process is requested, with the list vboxmanage, unregistervm, --delete, the
  identifier. For \<^verbatim>\<open>delete --name|--uuid v\<close>, with a value that does not start with a
  dash, the identifier is the value \<open>v\<close>.
\<close>

theorem delete_spawns_unregistervm:
  "(parse_args (subparsers_call name_parser_map) parser (''delete'' # rest) = Ok args \<longrightarrow>
      (forms parser_delete rest = [ident_name] \<or> forms parser_delete rest = [ident_uuid]) \<and>
      (\<exists>ident. map_of args ''vbox_vm_identifier'' = Some (PyStr ident) \<and>
        spawned (snd (main os (prog # ''delete'' # rest))) =
          [[''vboxmanage'', ''unregistervm'', ''--delete'', ident]])) \<and>
   (\<not> startswith v ''-'' \<longrightarrow> f = ''--name'' \<or> f = ''--uuid'' \<longrightarrow>
      spawned (snd (main os [prog, ''delete'', f, v])) =
        [[''vboxmanage'', ''unregistervm'', ''--delete'', v]])"
proof (intro conjI impI)
  assume p: "parse_args (subparsers_call name_parser_map) parser (''delete'' # rest) = Ok args"
  then obtain st where
    st: "parse_known_args_state no_subparsers parser_delete rest (add_defaults parser_delete [])
           = Ok st" and a: "args = namespace st"
    by (auto simp: parse_args_delete split: result.splits if_splits)
  have m: "main os (prog # ''delete'' # rest) = opt_delete os args world0"
    by (simp add: main_dispatch [OF p])
  from accepted_delete [OF st] obtain ident where
    i: "map_of args ''vbox_vm_identifier'' = Some (PyStr ident)"
    and one: "(ident_name \<in> set (seen_non_default_actions st)) \<noteq>
              (ident_uuid \<in> set (seen_non_default_actions st))"
    by (auto simp: a)
  from forms_one [OF st one]
  show "forms parser_delete rest = [ident_name] \<or> forms parser_delete rest = [ident_uuid]" .
  from opt_delete_spawned [OF i, of os world0] i
  show "\<exists>ident. map_of args ''vbox_vm_identifier'' = Some (PyStr ident) \<and>
        spawned (snd (main os (prog # ''delete'' # rest))) =
          [[''vboxmanage'', ''unregistervm'', ''--delete'', ident]]"
    by (simp add: m world0_def)
next
  assume v: "\<not> startswith v ''-''" and f: "f = ''--name'' \<or> f = ''--uuid''"
  obtain a where a: "a = ident_name \<and> f = ''--name'' \<or> a = ident_uuid \<and> f = ''--uuid''"
    using f by blast
  note p = canonical_delete [OF v a]
  show "spawned (snd (main os [prog, ''delete'', f, v])) =
        [[''vboxmanage'', ''unregistervm'', ''--delete'', v]]"
    using opt_delete_spawned [of "[(''vbox_vm_identifier'', PyStr v)]" v os world0]
    by (simp add: main_dispatch [OF p] world0_def)
qed

theorem delete_spawns_unregistervm_witness:
  "spawned (snd (main (\<lambda>_. Exited 0) [''vbox_cli.py'', ''delete'', ''--name'', ''vm1''])) =
     [[''vboxmanage'', ''unregistervm'', ''--delete'', ''vm1'']] \<and>
   parse_args (subparsers_call name_parser_map) parser [''delete'', ''--uuid=abc-123''] =
     Ok [(''vbox_vm_identifier'', PyStr ''abc-123'')] \<and>
   spawned (snd (main (\<lambda>_. Exited 0) [''vbox_cli.py'', ''delete'', ''--uuid=abc-123''])) =
     [[''vboxmanage'', ''unregistervm'', ''--delete'', ''abc-123'']]"
proof -
  have s: "\<not> startswith ''vm1'' ''-''" by (simp add: startswith_def)
  have p: "parse_args (subparsers_call name_parser_map) parser [''delete'', ''--uuid=abc-123''] =
     Ok [(''vbox_vm_identifier'', PyStr ''abc-123'')]"
    by code_simp
  from delete_spawns_unregistervm
    [where v = "''vm1''" and f = "''--name''" and os = "\<lambda>_. Exited 0" and prog = "''vbox_cli.py''"] s
  have 1: "spawned (snd (main (\<lambda>_. Exited 0) [''vbox_cli.py'', ''delete'', ''--name'', ''vm1''])) =
     [[''vboxmanage'', ''unregistervm'', ''--delete'', ''vm1'']]"
    by simp
  from delete_spawns_unregistervm
    [where rest = "[''--uuid=abc-123'']" and os = "\<lambda>_. Exited 0" and prog = "''vbox_cli.py''"
       and args = "[(''vbox_vm_identifier'', PyStr ''abc-123'')]"] p
  have 2: "spawned (snd (main (\<lambda>_. Exited 0) [''vbox_cli.py'', ''delete'', ''--uuid=abc-123''])) =
     [[''vboxmanage'', ''unregistervm'', ''--delete'', ''abc-123'']]"
    by simp
  from 1 2 p show ?thesis by simp
qed

text \<open>
  C8, as amended. For every accepted delete or status command line the identifier
  of the namespace is a string and exactly one identification form, \<^verbatim>\<open>--name\<close> or
  \<^verbatim>\<open>--uuid\<close>, has been chosen; for every accepted create command line the name is a
  string. (The strings may be empty.)
\<close>

theorem accepted_identifier_one_form:
  "(parse_args (subparsers_call name_parser_map) parser (''delete'' # rest) = Ok args \<longrightarrow>
      (\<exists>v. map_of args ''vbox_vm_identifier'' = Some (PyStr v)) \<and>
      (forms parser_delete rest = [ident_name] \<or> forms parser_delete rest = [ident_uuid])) \<and>
   (parse_args (subparsers_call name_parser_map) parser (''status'' # rest) = Ok args \<longrightarrow>
      (\<exists>v. map_of args ''vbox_vm_identifier'' = Some (PyStr v)) \<and>
      (forms parser_status rest = [ident_name] \<or> forms parser_status rest = [ident_uuid])) \<and>
   (parse_args (subparsers_call name_parser_map) parser (''create'' # rest) = Ok args \<longrightarrow>
      (\<exists>n. map_of args ''vbox_vm_name'' = Some (PyStr n)))"
proof (intro conjI impI)
  assume p: "parse_args (subparsers_call name_parser_map) parser (''delete'' # rest) = Ok args"
  then obtain st where
    st: "parse_known_args_state no_subparsers parser_delete rest (add_defaults parser_delete [])
           = Ok st" and a: "args = namespace st"
    by (auto simp: parse_args_delete split: result.splits if_splits)
  from accepted_delete [OF st]
  show "\<exists>v. map_of args ''vbox_vm_identifier'' = Some (PyStr v)" by (simp add: a)
  from accepted_delete [OF st] forms_one [OF st]
  show "forms parser_delete rest = [ident_name] \<or> forms parser_delete rest = [ident_uuid]"
    by blast
next
  assume p: "parse_args (subparsers_call name_parser_map) parser (''status'' # rest) = Ok args"
  then obtain st where
    st: "parse_known_args_state no_subparsers parser_status rest (add_defaults parser_status [])
           = Ok st" and a: "args = namespace st"
    by (auto simp: parse_args_status split: result.splits if_splits)
  from accepted_status [OF st]
  show "\<exists>v. map_of args ''vbox_vm_identifier'' = Some (PyStr v)" by (simp add: a)
  from accepted_status [OF st] forms_one [OF st]
  show "forms parser_status rest = [ident_name] \<or> forms parser_status rest = [ident_uuid]"
    by blast
next
  assume p: "parse_args (subparsers_call name_parser_map) parser (''create'' # rest) = Ok args"
  then obtain st where
    st: "parse_known_args_state no_subparsers parser_create rest (add_defaults parser_create [])
           = Ok st" and a: "args = namespace st"
    by (auto simp: parse_args_create split: result.splits if_splits)
  from accepted_create [OF st]
  show "\<exists>n. map_of args ''vbox_vm_name'' = Some (PyStr n)" by (auto simp: a)
qed

theorem accepted_identifier_one_form_witness:
  "parse_args (subparsers_call name_parser_map) parser [''delete'', ''--uuid'', ''abc-123''] =
     Ok [(''vbox_vm_identifier'', PyStr ''abc-123'')] \<and>
   forms parser_delete [''--uuid'', ''abc-123''] = [ident_uuid]"
proof -
  have p: "parse_args (subparsers_call name_parser_map) parser [''delete'', ''--uuid'', ''abc-123''] =
     Ok [(''vbox_vm_identifier'', PyStr ''abc-123'')]"
    by code_simp
  have n: "forms parser_delete [''--uuid'', ''abc-123''] \<noteq> [ident_name]"
    by code_simp
  from accepted_identifier_one_form
    [where rest = "[''--uuid'', ''abc-123'']" and args = "[(''vbox_vm_identifier'', PyStr ''abc-123'')]"]
    p n
  show ?thesis by simp
qed

theorem empty_identifier_accepted_counterexample:
  "parse_args (subparsers_call name_parser_map) parser [''delete'', ''--name'', ''''] =
     Ok [(''vbox_vm_identifier'', PyStr '''')] \<and>
   spawned (snd (main (\<lambda>_. Exited 0) [''vbox_cli.py'', ''delete'', ''--name'', ''''])) =
     [[''vboxmanage'', ''unregistervm'', ''--delete'', '''']]"
  by code_simp

text \<open>
  C10. For every accepted status command line the action of the namespace is the
  string start or the string stop, and the run of the program prints nothing: the last
  branch of \<^verbatim>\<open>opt_status\<close>, the only one that prints (the line
  \<^verbatim>\<open>//TODO: proper error handling\<close>), is not taken.
\<close>

theorem status_fallback_unreachable:
  "parse_args (subparsers_call name_parser_map) parser (''status'' # rest) = Ok args \<longrightarrow>
     (map_of args ''vbox_vm_action'' = Some (PyStr ''start'') \<or>
      map_of args ''vbox_vm_action'' = Some (PyStr ''stop'')) \<and>
     stdout (snd (main os (prog # ''status'' # rest))) = [] \<and>
     Line todo_message \<notin> set (stdout (snd (run_program os (prog # ''status'' # rest))))"
proof
  assume p: "parse_args (subparsers_call name_parser_map) parser (''status'' # rest) = Ok args"
  then obtain st where
    st: "parse_known_args_state no_subparsers parser_status rest (add_defaults parser_status [])
           = Ok st" and a: "args = namespace st"
    by (auto simp: parse_args_status split: result.splits if_splits)
  from accepted_status [OF st]
  have act: "map_of args ''vbox_vm_action'' = Some (PyStr ''start'') \<or>
             map_of args ''vbox_vm_action'' = Some (PyStr ''stop'')"
    by (auto simp: a)
  have m: "main os (prog # ''status'' # rest) = opt_status os args world0"
    by (simp add: main_dispatch [OF p])
  have s: "stdout (snd (main os (prog # ''status'' # rest))) = []"
    using opt_status_stdout [OF act, of os world0] by (simp add: m world0_def)
  have r: "stdout (snd (run_program os sys_argv)) = stdout (snd (main os sys_argv))" for sys_argv
    by (simp add: run_program_def split: prod.splits option.splits exn.splits)
  from act s r
  show "(map_of args ''vbox_vm_action'' = Some (PyStr ''start'') \<or>
      map_of args ''vbox_vm_action'' = Some (PyStr ''stop'')) \<and>
     stdout (snd (main os (prog # ''status'' # rest))) = [] \<and>
     Line todo_message \<notin> set (stdout (snd (run_program os (prog # ''status'' # rest))))"
    by simp
qed

theorem status_fallback_unreachable_witness:
  "parse_args (subparsers_call name_parser_map) parser [''status'', ''--stop'', ''--name'', ''vm1''] =
     Ok [(''vbox_vm_action'', PyStr ''stop''), (''vbox_vm_identifier'', PyStr ''vm1'')] \<and>
   stdout (snd (main (\<lambda>_. Exited 0) [''vbox_cli.py'', ''status'', ''--stop'', ''--name'', ''vm1''])) = []"
proof -
  have p: "parse_args (subparsers_call name_parser_map) parser
      [''status'', ''--stop'', ''--name'', ''vm1''] =
     Ok [(''vbox_vm_action'', PyStr ''stop''), (''vbox_vm_identifier'', PyStr ''vm1'')]"
    by code_simp
  from status_fallback_unreachable
    [where rest = "[''--stop'', ''--name'', ''vm1'']" and os = "\<lambda>_. Exited 0"
       and prog = "''vbox_cli.py''"
       and args = "[(''vbox_vm_action'', PyStr ''stop''), (''vbox_vm_identifier'', PyStr ''vm1'')]"] p
  show ?thesis by simp
qed

end
